theory Spec2Isabelle
  imports Main "HOL-Library.Sublist"
begin

section \<open>Python values shared by the modules\<close>

text \<open>
  A Python \<open>str\<close> is modelled as a \<open>string\<close>; every \<open>char\<close> stands for one
  character of the Python string, so \<open>length\<close> is Python's \<open>len\<close>. Token ids are
  Python integers, hence \<open>int\<close>. Exceptions are values: a function that can raise returns
  \<open>py_exception + 'a\<close>, with \<open>Inl\<close> for the exception.
\<close>

datatype py_exception =
    ValueError string
  | TypeError string
  | RuntimeError string
  | AttributeError string
  | Psycopg2Error string
  | EngineError string

text \<open>\<open>str(e)\<close> of an exception built from one message is that message.\<close>

fun str_exc :: "py_exception \<Rightarrow> string" where
  "str_exc (ValueError m) = m"
| "str_exc (TypeError m) = m"
| "str_exc (RuntimeError m) = m"
| "str_exc (AttributeError m) = m"
| "str_exc (Psycopg2Error m) = m"
| "str_exc (EngineError m) = m"

definition newline :: char where
  "newline = CHR 0x0A"

definition backslash :: char where
  "backslash = CHR 0x5C"

text \<open>\<open>list.index(v)\<close>: the position of the first element equal to \<open>v\<close>, or ValueError.\<close>

fun py_index :: "'a list \<Rightarrow> 'a \<Rightarrow> py_exception + nat" where
  "py_index [] v = Inl (ValueError ''value is not in list'')"
| "py_index (x # xs) v =
     (if x = v then Inr 0
      else (case py_index xs v of Inl e \<Rightarrow> Inl e | Inr i \<Rightarrow> Inr (Suc i)))"

text \<open>\<open>s.strip("\n")\<close>: every leading and every trailing newline is removed.\<close>

definition py_strip_newlines :: "string \<Rightarrow> string" where
  "py_strip_newlines s =
     rev (dropWhile (\<lambda>c. c = newline) (rev (dropWhile (\<lambda>c. c = newline) s)))"

section \<open>bot.py: the content splitter\<close>

text \<open>
  The lines shared by \<open>Bot.generate\<close> and \<open>run_generate\<close>:
  \<^verbatim>\<open>
  try:
      index = len(response_ids) - response_ids[::-1].index(151668)
  except ValueError:
      index = 0
  thinking_content = tokenizer.decode(response_ids[:index], skip_special_tokens=True).strip("\n")
  content = tokenizer.decode(response_ids[index:], skip_special_tokens=True).strip("\n")
  \<close>
  The tokenizer is an external library: \<open>decode\<close> is a parameter standing for
  \<open>tokenizer.decode(_, skip_special_tokens=True)\<close>.
\<close>

definition end_of_reasoning :: int where
  "end_of_reasoning = 151668"

text \<open>The body of the \<open>try\<close>.\<close>

definition index_try :: "int list \<Rightarrow> py_exception + nat" where
  "index_try response_ids =
     (case py_index (rev response_ids) end_of_reasoning of
        Inl e \<Rightarrow> Inl e
      | Inr r \<Rightarrow> Inr (length response_ids - r))"

text \<open>The \<open>try\<close> with its handler: only ValueError is caught.\<close>

definition split_index :: "int list \<Rightarrow> py_exception + nat" where
  "split_index response_ids =
     (case index_try response_ids of
        Inl (ValueError m) \<Rightarrow> Inr 0
      | Inl e \<Rightarrow> Inl e
      | Inr i \<Rightarrow> Inr i)"

text \<open>The pair \<open>(thinking_content, content)\<close>.\<close>

definition split_response ::
  "(int list \<Rightarrow> string) \<Rightarrow> int list \<Rightarrow> py_exception + (string \<times> string)" where
  "split_response decode response_ids =
     (case split_index response_ids of
        Inl e \<Rightarrow> Inl e
      | Inr i \<Rightarrow>
          Inr (py_strip_newlines (decode (take i response_ids)),
               py_strip_newlines (decode (drop i response_ids))))"

section \<open>db.py: the conversation store\<close>

text \<open>
  The two tables of \<open>_initialize_tables\<close> and the state of the connection.
  \<open>connection\<close> says that \<open>self.connection\<close> is set. \<open>tx_aborted\<close> says that a
  statement of the open transaction has failed on the server: until a rollback every
  further statement fails. \<open>uuid_canon\<close> is the server's reading of text for the
  \<open>UUID\<close> column: None for invalid syntax, otherwise the canonical spelling, so that
  two spellings of one uuid meet in the same row. Rows hold canonical spellings. A
  timestamp is a reading of the server clock \<open>now\<close>, which advances at every commit.
  The serial key of \<open>conversation_details\<close> is not read by any code and is left out.
  Both writers of \<open>title\<close> cut it to at most 255 characters first, so the length of
  the column is never exceeded. The server stays reachable.
\<close>

record conversation =
  conv_session_id :: string
  conv_title :: string
  conv_created_at :: nat
  conv_updated_at :: nat

record message =
  msg_session_id :: string
  msg_role :: string
  msg_content :: string
  msg_reasoning :: string
  msg_timestamp :: nat

record conversation_db =
  connection :: bool
  tx_aborted :: bool
  uuid_canon :: "string \<Rightarrow> string option"
  conversations :: "conversation list"
  conversation_details :: "message list"
  now :: nat

definition commit :: "conversation_db \<Rightarrow> conversation_db" where
  "commit db = db\<lparr>tx_aborted := False, now := Suc (now db)\<rparr>"

text \<open>
  \<open>self.connection.rollback()\<close> in a handler: the methods that call it have committed
  nothing since they were entered, so the store they were entered with comes back.
\<close>

definition rollback :: "conversation_db \<Rightarrow> conversation_db" where
  "rollback db = db\<lparr>tx_aborted := False\<rparr>"

text \<open>
  What \<open>cursor.execute\<close> does before the statement reaches the tables. A string
  parameter that holds the character NUL makes the driver raise ValueError while it
  builds the statement; this is no \<open>psycopg2.Error\<close> and nothing is sent. A statement
  sent in an aborted transaction fails with a \<open>psycopg2.Error\<close>. Every character
  other than NUL is one the client encoding can carry.
\<close>

definition has_nul :: "string \<Rightarrow> bool" where
  "has_nul s = (CHR 0x00 \<in> set s)"

definition execute_check :: "conversation_db \<Rightarrow> string list \<Rightarrow> py_exception option" where
  "execute_check db params =
     (if list_ex has_nul params
      then Some (ValueError ''A string literal cannot contain NUL (0x00) characters.'')
      else if tx_aborted db then Some (Psycopg2Error ''current transaction is aborted'')
      else None)"

text \<open>\<^verbatim>\<open>INSERT INTO conversations (session_id, title) VALUES (%s, %s)\<close>\<close>

definition sql_insert_conversation ::
  "conversation_db \<Rightarrow> string \<Rightarrow> string \<Rightarrow> py_exception + conversation_db" where
  "sql_insert_conversation db sid ttl =
     (case execute_check db [sid, ttl] of
        Some e \<Rightarrow> Inl e
      | None \<Rightarrow>
          (case uuid_canon db sid of
             None \<Rightarrow> Inl (Psycopg2Error ''invalid input syntax for type uuid'')
           | Some k \<Rightarrow>
               if k \<in> set (map conv_session_id (conversations db))
               then Inl (Psycopg2Error ''duplicate key'')
               else Inr (db\<lparr>conversations := conversations db @
                           [\<lparr>conv_session_id = k, conv_title = ttl,
                             conv_created_at = now db, conv_updated_at = now db\<rparr>]\<rparr>)))"

text \<open>
  \<^verbatim>\<open>UPDATE conversations SET title = %s WHERE session_id = %s\<close>, with the trigger that
  refreshes \<open>updated_at\<close>; the result carries \<open>cursor.rowcount\<close>.
\<close>

definition sql_update_title ::
  "conversation_db \<Rightarrow> string \<Rightarrow> string \<Rightarrow> py_exception + (nat \<times> conversation_db)" where
  "sql_update_title db sid ttl =
     (case execute_check db [ttl, sid] of
        Some e \<Rightarrow> Inl e
      | None \<Rightarrow>
          (case uuid_canon db sid of
             None \<Rightarrow> Inl (Psycopg2Error ''invalid input syntax for type uuid'')
           | Some k \<Rightarrow>
               Inr (length (filter (\<lambda>c. conv_session_id c = k) (conversations db)),
                    db\<lparr>conversations :=
                         map (\<lambda>c. if conv_session_id c = k
                                   then c\<lparr>conv_title := ttl, conv_updated_at := now db\<rparr>
                                   else c)
                           (conversations db)\<rparr>)))"

text \<open>
  \<^verbatim>\<open>INSERT INTO conversation_details (session_id, role, content, reasoning) VALUES (...)\<close>
  with the foreign key and the check of the role.
\<close>

definition sql_insert_detail ::
  "conversation_db \<Rightarrow> string \<Rightarrow> string \<Rightarrow> string \<Rightarrow> string \<Rightarrow> py_exception + conversation_db" where
  "sql_insert_detail db sid rl cnt rsn =
     (case execute_check db [sid, rl, cnt, rsn] of
        Some e \<Rightarrow> Inl e
      | None \<Rightarrow>
          (case uuid_canon db sid of
             None \<Rightarrow> Inl (Psycopg2Error ''invalid input syntax for type uuid'')
           | Some k \<Rightarrow>
               if k \<notin> set (map conv_session_id (conversations db))
               then Inl (Psycopg2Error ''foreign key'')
               else if rl \<notin> {''user'', ''assistant'', ''system''}
               then Inl (Psycopg2Error ''check constraint'')
               else Inr (db\<lparr>conversation_details := conversation_details db @
                           [\<lparr>msg_session_id = k, msg_role = rl, msg_content = cnt,
                             msg_reasoning = rsn, msg_timestamp = now db\<rparr>]\<rparr>)))"

text \<open>\<^verbatim>\<open>SELECT COUNT(*) FROM conversation_details WHERE session_id = %s\<close>\<close>

definition sql_count_details :: "conversation_db \<Rightarrow> string \<Rightarrow> py_exception + nat" where
  "sql_count_details db sid =
     (case execute_check db [sid] of
        Some e \<Rightarrow> Inl e
      | None \<Rightarrow>
          (case uuid_canon db sid of
             None \<Rightarrow> Inl (Psycopg2Error ''invalid input syntax for type uuid'')
           | Some k \<Rightarrow>
               Inr (length (filter (\<lambda>m. msg_session_id m = k) (conversation_details db)))))"

text \<open>\<^verbatim>\<open>DELETE FROM conversations WHERE session_id = %s\<close>, cascading to the details.\<close>

definition sql_delete_conversation ::
  "conversation_db \<Rightarrow> string \<Rightarrow> py_exception + (nat \<times> conversation_db)" where
  "sql_delete_conversation db sid =
     (case execute_check db [sid] of
        Some e \<Rightarrow> Inl e
      | None \<Rightarrow>
          (case uuid_canon db sid of
             None \<Rightarrow> Inl (Psycopg2Error ''invalid input syntax for type uuid'')
           | Some k \<Rightarrow>
               Inr (length (filter (\<lambda>c. conv_session_id c = k) (conversations db)),
                    db\<lparr>conversations :=
                         filter (\<lambda>c. conv_session_id c \<noteq> k) (conversations db),
                       conversation_details :=
                         (if k \<in> set (map conv_session_id (conversations db))
                          then filter (\<lambda>m. msg_session_id m \<noteq> k) (conversation_details db)
                          else conversation_details db)\<rparr>)))"

text \<open>
  Every method returns what it returns or raises, and the store it leaves. The handlers
  catch \<open>psycopg2.Error\<close> only: a ValueError of \<open>cursor.execute\<close> leaves the method as
  it is.

  \<open>create_conversation\<close>: \<open>new_uuid\<close> is the value of \<open>str(uuid.uuid4())\<close>; an absent or
  empty prompt becomes "New Conversation"; without a connection the result is the empty
  string; a failing insert is rolled back and raised again.
\<close>

definition create_conversation ::
  "conversation_db \<Rightarrow> string \<Rightarrow> string option \<Rightarrow> (py_exception + string) \<times> conversation_db" where
  "create_conversation db new_uuid initial_prompt =
     (let initial_prompt =
            (case initial_prompt of
               None \<Rightarrow> ''New Conversation''
             | Some p \<Rightarrow> if p = [] then ''New Conversation'' else p);
          session_id = new_uuid;
          title = (if initial_prompt \<noteq> [] \<and> 100 < length initial_prompt
                   then take 100 initial_prompt @ ''...''
                   else initial_prompt)
      in if \<not> connection db then (Inr [], db)
         else (case sql_insert_conversation db session_id title of
                 Inl (Psycopg2Error m) \<Rightarrow> (Inl (Psycopg2Error m), rollback db)
               | Inl e \<Rightarrow> (Inl e, db)
               | Inr db' \<Rightarrow> (Inr session_id, commit db')))"

text \<open>
  \<open>update_conversation_title\<close>: the title is cut before the connection is looked at; the
  result is \<open>cursor.rowcount > 0\<close>, or False after a rollback. The method is also called
  by \<open>add_message\<close> inside its transaction, where a rollback gives back the store that
  \<open>add_message\<close> was entered with: \<open>committed\<close> is that store, \<open>db\<close> the store the
  statement runs on.
\<close>

definition update_conversation_title_in ::
  "conversation_db \<Rightarrow> conversation_db \<Rightarrow> string \<Rightarrow> string \<Rightarrow>
   (py_exception + bool) \<times> conversation_db" where
  "update_conversation_title_in committed db session_id title =
     (let title = (if 255 < length title then take 252 title @ ''...'' else title)
      in if \<not> connection db then (Inr False, db)
         else (case sql_update_title db session_id title of
                 Inl (Psycopg2Error m) \<Rightarrow> (Inr False, rollback committed)
               | Inl e \<Rightarrow> (Inl e, db)
               | Inr (rowcount, db') \<Rightarrow> (Inr (0 < rowcount), commit db')))"

definition update_conversation_title ::
  "conversation_db \<Rightarrow> string \<Rightarrow> string \<Rightarrow> (py_exception + bool) \<times> conversation_db" where
  "update_conversation_title db session_id title =
     update_conversation_title_in db db session_id title"

text \<open>
  \<open>add_message\<close>: an absent or empty \<open>reasoning\<close> is stored as the empty string. After the
  insert of a message with role "user" the rows of the conversation are counted, and when
  the new row is the only one the title is replaced through
  \<open>update_conversation_title\<close>, whose result is not looked at. A \<open>psycopg2.Error\<close> rolls
  everything back and gives False.
\<close>

definition add_message ::
  "conversation_db \<Rightarrow> string \<Rightarrow> string \<Rightarrow> string \<Rightarrow> string option \<Rightarrow>
   (py_exception + bool) \<times> conversation_db" where
  "add_message db session_id role content reasoning =
     (if \<not> connection db then (Inr False, db)
      else
        (let reasoning = (case reasoning of None \<Rightarrow> [] | Some r \<Rightarrow> r)
         in case sql_insert_detail db session_id role content reasoning of
              Inl (Psycopg2Error m) \<Rightarrow> (Inr False, rollback db)
            | Inl e \<Rightarrow> (Inl e, db)
            | Inr db1 \<Rightarrow>
                (if role = ''user''
                 then (case sql_count_details db1 session_id of
                         Inl (Psycopg2Error m) \<Rightarrow> (Inr False, rollback db)
                       | Inl e \<Rightarrow> (Inl e, db1)
                       | Inr count \<Rightarrow>
                           (if count = 1
                            then (let title = (if 100 < length content
                                               then take 100 content @ ''...''
                                               else content)
                                  in case update_conversation_title_in db db1 session_id title of
                                       (Inl e, db2) \<Rightarrow> (Inl e, db2)
                                     | (Inr updated, db2) \<Rightarrow> (Inr True, commit db2))
                            else (Inr True, commit db1)))
                 else (Inr True, commit db1))))"

text \<open>
  \<open>get_conversation\<close>: None without a connection, on a \<open>psycopg2.Error\<close> and for an
  unknown id; otherwise the row and its messages ordered by timestamp. Its handler does
  not roll back: after a failed SELECT the transaction stays aborted.
\<close>

definition get_conversation ::
  "conversation_db \<Rightarrow> string \<Rightarrow>
   (py_exception + (conversation \<times> message list) option) \<times> conversation_db" where
  "get_conversation db session_id =
     (if \<not> connection db then (Inr None, db)
      else (case execute_check db [session_id] of
              Some (Psycopg2Error m) \<Rightarrow> (Inr None, db\<lparr>tx_aborted := True\<rparr>)
            | Some e \<Rightarrow> (Inl e, db)
            | None \<Rightarrow>
                (case uuid_canon db session_id of
                   None \<Rightarrow> (Inr None, db\<lparr>tx_aborted := True\<rparr>)
                 | Some k \<Rightarrow>
                     (case filter (\<lambda>c. conv_session_id c = k) (conversations db) of
                        [] \<Rightarrow> (Inr None, db)
                      | c # cs \<Rightarrow>
                          (Inr (Some (c, sort_key msg_timestamp
                                           (filter (\<lambda>m. msg_session_id m = k)
                                              (conversation_details db)))),
                           db)))))"

text \<open>\<open>delete_conversation\<close>: \<open>cursor.rowcount > 0\<close>, or False after a rollback.\<close>

definition delete_conversation ::
  "conversation_db \<Rightarrow> string \<Rightarrow> (py_exception + bool) \<times> conversation_db" where
  "delete_conversation db session_id =
     (if \<not> connection db then (Inr False, db)
      else (case sql_delete_conversation db session_id of
              Inl (Psycopg2Error m) \<Rightarrow> (Inr False, rollback db)
            | Inl e \<Rightarrow> (Inl e, db)
            | Inr (rowcount, db') \<Rightarrow> (Inr (0 < rowcount), commit db')))"

text \<open>The title stored for a session id, if the conversation exists.\<close>

definition title_of :: "conversation_db \<Rightarrow> string \<Rightarrow> string option" where
  "title_of db sid =
     (case uuid_canon db sid of
        None \<Rightarrow> None
      | Some k \<Rightarrow>
          (case filter (\<lambda>c. conv_session_id c = k) (conversations db) of
             [] \<Rightarrow> None
           | c # cs \<Rightarrow> Some (conv_title c)))"

text \<open>
  The title derivation in the words of the specification: at most 100 characters are kept
  and an ellipsis marks the cut.
\<close>

definition spec_title :: "string \<Rightarrow> string" where
  "spec_title s = (if length s \<le> 100 then s else take 100 s @ ''...'')"

section \<open>bot.py: the bot and its streaming generator\<close>

text \<open>
  The model and the tokenizer are external: what they do in one request is a parameter, the
  record \<open>engine\<close>. \<open>load_error\<close> is the message of the exception \<open>load_model\<close> raises, if
  it raises; \<open>streamed\<close> lists the calls \<open>on_finalized_text(text, stream_end)\<close> that the
  streamer makes while \<open>model.generate\<close> runs; \<open>generated\<close> is the exception raised in
  \<open>run_generate\<close> before or by \<open>model.generate\<close>, or the response ids it returns;
  \<open>tokenizer_decode\<close> is \<open>tokenizer.decode(_, skip_special_tokens=True)\<close>.
\<close>

record engine =
  load_error :: "string option"
  streamed :: "(string \<times> bool) list"
  generated :: "py_exception + int list"
  tokenizer_decode :: "int list \<Rightarrow> string"

text \<open>
  Of a \<open>Bot\<close> the fields read by the streaming path; \<open>model_loaded\<close> stands for
  \<open>self.model\<close> and \<open>self.tokenizer\<close> both being set. A history entry is a pair of role
  and content.
\<close>

record bot =
  model_loaded :: bool
  history :: "(string \<times> string) list"
  user_input :: string
  messages :: "(string \<times> string) list"
  bot_session_id :: string

definition load_model :: "engine \<Rightarrow> bot \<Rightarrow> py_exception + bot" where
  "load_model eng b =
     (case load_error eng of
        Some m \<Rightarrow> Inl (EngineError m)
      | None \<Rightarrow> Inr (b\<lparr>model_loaded := True\<rparr>))"

definition prompt :: "bot \<Rightarrow> string \<Rightarrow> bot" where
  "prompt b p = b\<lparr>user_input := p, messages := history b @ [(''user'', p)]\<rparr>"

text \<open>
  A queue holds strings and Python's None, the terminal sentinel: an item is a
  \<open>string option\<close> and a queue is the list of its items, oldest first.
\<close>

text \<open>\<open>StreamingToQueue.on_finalized_text\<close>, as the items it puts.\<close>

definition on_finalized_text :: "string \<Rightarrow> bool \<Rightarrow> string option list" where
  "on_finalized_text text stream_end = Some text # (if stream_end then [None] else [])"

text \<open>\<open>s.replace(old, new)\<close> for a one-character \<open>old\<close>.\<close>

definition py_replace_char :: "char \<Rightarrow> string \<Rightarrow> string \<Rightarrow> string" where
  "py_replace_char old new s = concat (map (\<lambda>c. if c = old then new else [c]) s)"

text \<open>
  The body of the loop of \<open>generate_stream\<close> for a token that is not None:
  \<^verbatim>\<open>text = token.replace("\n", "\\n"); yield f"data: {text}\n\n"\<close>
\<close>

definition generate_stream_yield :: "string \<Rightarrow> string" where
  "generate_stream_yield token =
     (let text = py_replace_char newline [backslash, CHR ''n''] token
      in ''data: '' @ text @ [newline, newline])"

text \<open>The two checks at the head of \<open>generate_stream\<close>.\<close>

definition generate_stream_checks :: "bot \<Rightarrow> py_exception option" where
  "generate_stream_checks b =
     (if \<not> model_loaded b then Some (RuntimeError ''Model is not loaded. Call `load_model()` first.'')
      else if messages b = [] then Some (AttributeError ''Set a prompt first using `prompt()`.'')
      else None)"

text \<open>
  \<open>run_generate\<close> is the target of the thread started by \<open>generate_stream\<close>. Its effects
  on what it shares with other threads and processes are, in order: the items the
  streamer puts on the stream queue while \<open>model.generate\<close> runs, then, if generation
  returned, \<open>add_message\<close> for the user turn and, after the split of the response ids,
  \<open>add_message\<close> for the assistant turn. An exception ends the thread where it is raised.
  The bot of api.py always has a store. The appends to \<open>self.history\<close> stay inside the
  worker process and are not modelled.
\<close>

datatype t_action =
    Put "string option"
  | AddMessage string string string "string option"

definition run_generate :: "engine \<Rightarrow> bot \<Rightarrow> t_action list" where
  "run_generate eng b =
     map Put (concat (map (\<lambda>(text, stream_end). on_finalized_text text stream_end) (streamed eng)))
     @ (case generated eng of
          Inl e \<Rightarrow> []
        | Inr response_ids \<Rightarrow>
            AddMessage (bot_session_id b) ''user'' (user_input b) None #
            (case split_response (tokenizer_decode eng) response_ids of
               Inl e \<Rightarrow> []
             | Inr (thinking_content, content) \<Rightarrow>
                 [AddMessage (bot_session_id b) ''assistant'' content (Some thinking_content)]))"

section \<open>api.py: the worker process and the event generator\<close>

record request =
  req_session_id :: string
  req_prompt :: string
  req_thinking :: bool

text \<open>What one stream request runs with: the engine, the bot of the module and the request.\<close>

record scenario =
  sc_engine :: engine
  sc_bot :: bot
  sc_request :: request

text \<open>
  The head of \<open>worker_process\<close>, up to the first \<open>next\<close> of \<open>generate_stream\<close>: the model is
  loaded if it is not, the session and the prompt are set, and the checks of
  \<open>generate_stream\<close> run; then the thread is started.
\<close>

definition worker_start :: "scenario \<Rightarrow> py_exception + bot" where
  "worker_start sc =
     (case (if \<not> model_loaded (sc_bot sc) then load_model (sc_engine sc) (sc_bot sc)
            else Inr (sc_bot sc)) of
        Inl e \<Rightarrow> Inl e
      | Inr b1 \<Rightarrow>
          (let b2 = prompt (b1\<lparr>bot_session_id := req_session_id (sc_request sc)\<rparr>)
                      (req_prompt (sc_request sc))
           in case generate_stream_checks b2 of
                Some e \<Rightarrow> Inl e
              | None \<Rightarrow> Inr b2))"

text \<open>The fragment of the handler: \<^verbatim>\<open>f"data: ERROR: {str(e)}\n\n"\<close>\<close>

definition error_fragment :: "py_exception \<Rightarrow> string" where
  "error_fragment e = ''data: ERROR: '' @ str_exc e @ [newline, newline]"

text \<open>What \<open>event_generator\<close> yields for a chunk: \<^verbatim>\<open>f"{chunk}\\n\\n\n\n"\<close>\<close>

definition event_generator_response :: "string \<Rightarrow> string" where
  "event_generator_response chunk =
     chunk @ [backslash, CHR ''n'', backslash, CHR ''n'', newline, newline]"

text \<open>
  A stream request runs three sequential programs side by side: the thread of
  \<open>run_generate\<close>, the main thread of the worker process (\<open>worker_process\<close> iterating
  \<open>generate_stream\<close>) and the loop of \<open>event_generator\<close> in the server. They share the
  stream queue, the output queue, the store and the liveness of the worker process. The
  state holds these, a program counter for each program, and the history of each
  queue: \<open>t_done\<close> the actions the thread has performed, \<open>taken\<close> the items the worker
  has read from the stream queue, \<open>produced\<close> the items it has put on the output queue,
  \<open>received\<close> the items the event generator has read, \<open>yielded\<close> what it has sent to
  the client, \<open>timeouts\<close> the number of its reads that timed out.
\<close>

datatype w_state =
    WStart
  | WStreaming
  | WPut string
  | WSignalDone
  | WExcept py_exception
  | WExceptDone
  | WExited

datatype c_state = CCheck | CGet | CDone

record sys =
  stream_queue :: "string option list"
  output_queue :: "string option list"
  t_started :: bool
  t_todo :: "t_action list"
  t_done :: "t_action list"
  w_pc :: w_state
  taken :: "string option list"
  produced :: "string option list"
  killed :: bool
  c_pc :: c_state
  received :: "string option list"
  yielded :: "string list"
  timeouts :: nat
  store :: conversation_db

definition init :: "conversation_db \<Rightarrow> sys" where
  "init db =
     \<lparr>stream_queue = [], output_queue = [], t_started = False, t_todo = [], t_done = [],
      w_pc = WStart, taken = [], produced = [], killed = False, c_pc = CCheck,
      received = [], yielded = [], timeouts = 0, store = db\<rparr>"

text \<open>
  \<open>p.is_alive()\<close>: the worker process lives until it is killed or until its main thread
  has left \<open>worker_process\<close> and the thread it started, which is not a daemon, has ended.
\<close>

definition alive :: "sys \<Rightarrow> bool" where
  "alive s = (\<not> killed s \<and> (w_pc s \<noteq> WExited \<or> (t_started s \<and> t_todo s \<noteq> [])))"

text \<open>
  One action of the thread of \<open>run_generate\<close>. An exception that leaves
  \<open>add_message\<close> ends the thread: nothing of its program is left to do.
\<close>

definition thread_step :: "sys \<Rightarrow> sys" where
  "thread_step s =
     (if \<not> t_started s \<or> killed s then s
      else (case t_todo s of
              [] \<Rightarrow> s
            | Put item # rest \<Rightarrow>
                s\<lparr>stream_queue := stream_queue s @ [item],
                  t_todo := rest, t_done := t_done s @ [Put item]\<rparr>
            | AddMessage sid rl cnt rsn # rest \<Rightarrow>
                (case add_message (store s) sid rl cnt rsn of
                   (Inl e, db') \<Rightarrow> s\<lparr>store := db', t_todo := []\<rparr>
                 | (Inr ok, db') \<Rightarrow>
                     s\<lparr>store := db', t_todo := rest,
                       t_done := t_done s @ [AddMessage sid rl cnt rsn]\<rparr>)))"

text \<open>
  One step of \<open>worker_process\<close>. In \<open>WStreaming\<close> the main thread is at \<open>q.get()\<close> in
  \<open>generate_stream\<close>, which has no timeout: on an empty stream queue it stays blocked. A
  token is framed and handed to \<open>output_queue.put\<close> (\<open>WPut\<close>); None ends the generator
  and \<open>output_queue.put(None)\<close> follows (\<open>WSignalDone\<close>). An exception of the head goes
  to the handler, which puts the error fragment, then None, and raises again.
\<close>

definition worker_step :: "scenario \<Rightarrow> sys \<Rightarrow> sys" where
  "worker_step sc s =
     (if killed s then s
      else (case w_pc s of
              WStart \<Rightarrow>
                (case worker_start sc of
                   Inl e \<Rightarrow> s\<lparr>w_pc := WExcept e\<rparr>
                 | Inr b \<Rightarrow> s\<lparr>t_started := True, t_todo := run_generate (sc_engine sc) b,
                              w_pc := WStreaming\<rparr>)
            | WStreaming \<Rightarrow>
                (case stream_queue s of
                   [] \<Rightarrow> s
                 | None # q \<Rightarrow>
                     s\<lparr>stream_queue := q, taken := taken s @ [None], w_pc := WSignalDone\<rparr>
                 | Some token # q \<Rightarrow>
                     s\<lparr>stream_queue := q, taken := taken s @ [Some token],
                       w_pc := WPut (generate_stream_yield token)\<rparr>)
            | WPut chunk \<Rightarrow>
                s\<lparr>output_queue := output_queue s @ [Some chunk],
                  produced := produced s @ [Some chunk], w_pc := WStreaming\<rparr>
            | WSignalDone \<Rightarrow>
                s\<lparr>output_queue := output_queue s @ [None],
                  produced := produced s @ [None], w_pc := WExited\<rparr>
            | WExcept e \<Rightarrow>
                s\<lparr>output_queue := output_queue s @ [Some (error_fragment e)],
                  produced := produced s @ [Some (error_fragment e)], w_pc := WExceptDone\<rparr>
            | WExceptDone \<Rightarrow>
                s\<lparr>output_queue := output_queue s @ [None],
                  produced := produced s @ [None], w_pc := WExited\<rparr>
            | WExited \<Rightarrow> s))"

text \<open>
  One step of the loop of \<open>event_generator\<close>. At \<open>CCheck\<close> it evaluates
  \<^verbatim>\<open>not p.is_alive() and output_queue.empty()\<close>. At \<open>CGet\<close> it is at
  \<^verbatim>\<open>output_queue.get(timeout=0.1)\<close>: when the step is taken on an empty queue the read
  has timed out, one poll interval has passed and the loop continues; None ends the
  loop without a frame; a chunk is yielded.
\<close>

definition consumer_step :: "sys \<Rightarrow> sys" where
  "consumer_step s =
     (case c_pc s of
        CCheck \<Rightarrow>
          (if \<not> alive s \<and> output_queue s = [] then s\<lparr>c_pc := CDone\<rparr>
           else s\<lparr>c_pc := CGet\<rparr>)
      | CGet \<Rightarrow>
          (case output_queue s of
             [] \<Rightarrow> s\<lparr>c_pc := CCheck, timeouts := Suc (timeouts s)\<rparr>
           | None # q \<Rightarrow>
               s\<lparr>output_queue := q, received := received s @ [None], c_pc := CDone\<rparr>
           | Some chunk # q \<Rightarrow>
               s\<lparr>output_queue := q, received := received s @ [Some chunk],
                 yielded := yielded s @ [event_generator_response chunk], c_pc := CCheck\<rparr>)
      | CDone \<Rightarrow> s)"

text \<open>
  The programs are interleaved by a schedule, the list of who moves next; \<open>Kill\<close> is the
  death of the worker process from outside (a signal, the out-of-memory killer). The
  queues themselves do not fail, and the transport is not cancelled: what
  \<open>event_generator\<close> does after its loop (\<open>p.join()\<close>, the \<open>finally\<close> block) is
  outside the model.
\<close>

datatype actor = Thread | Worker | Consumer | Kill

definition step :: "scenario \<Rightarrow> actor \<Rightarrow> sys \<Rightarrow> sys" where
  "step sc a s =
     (case a of
        Thread \<Rightarrow> thread_step s
      | Worker \<Rightarrow> worker_step sc s
      | Consumer \<Rightarrow> consumer_step s
      | Kill \<Rightarrow> s\<lparr>killed := True\<rparr>)"

definition run :: "scenario \<Rightarrow> actor list \<Rightarrow> sys \<Rightarrow> sys" where
  "run sc sched s = foldl (\<lambda>s a. step sc a s) s sched"

section \<open>api.py: the session-scoped endpoints\<close>

text \<open>
  What is raised inside an endpoint is either an \<open>HTTPException\<close> with a status and a
  detail, or another Python exception. The endpoint answers with a payload or with an
  \<open>HTTPException\<close> whose detail is a text or \<open>str(e)\<close> of what was caught. Next to the
  answer each endpoint returns the store and the list of its effects: the methods of the
  store it entered and the worker it dispatched. Four endpoints bear the names of
  the store methods they call, so every endpoint is prefixed with \<open>api_\<close> here.
\<close>

datatype raised = RaisedHTTP nat string | RaisedPy py_exception

datatype detail = Text string | StrOf raised

datatype http_exception = HTTPException nat detail

datatype effect = StorageAccess string | WorkerDispatch string string bool

text \<open>
  The validation shared by the five endpoints, with \<open>uuid_ok\<close> standing for the library
  call \<open>uuid.UUID(session_id)\<close>: True when it returns, False when it raises ValueError.
\<close>

definition validate_session_id :: "(string \<Rightarrow> bool) \<Rightarrow> string \<Rightarrow> raised + unit" where
  "validate_session_id uuid_ok session_id =
     (if uuid_ok session_id then Inr ()
      else Inl (RaisedHTTP 400 ''Invalid session ID format''))"

text \<open>
  The handlers of the outer \<open>try\<close>. Four endpoints have
  \<^verbatim>\<open>except HTTPException: raise\<close> before \<^verbatim>\<open>except Exception as e\<close>;
  \<open>stream_response\<close> has only the second clause.
\<close>

definition reraise_or_500 :: "raised \<Rightarrow> http_exception" where
  "reraise_or_500 r =
     (case r of
        RaisedHTTP code d \<Rightarrow> HTTPException code (Text d)
      | RaisedPy e \<Rightarrow> HTTPException 500 (StrOf (RaisedPy e)))"

definition always_500 :: "raised \<Rightarrow> http_exception" where
  "always_500 r = HTTPException 500 (StrOf r)"

text \<open>
  \<open>get_conversation\<close>: the result of the store is unpacked into two names, which raises
  TypeError when the store returned None. A row that was found is a dict with entries,
  so the test \<open>not conversation\<close> that guards the 404 is false.
\<close>

definition api_get_conversation ::
  "(string \<Rightarrow> bool) \<Rightarrow> conversation_db \<Rightarrow> string \<Rightarrow>
   (http_exception + (conversation \<times> message list)) \<times> conversation_db \<times> effect list" where
  "api_get_conversation uuid_ok db session_id =
     (case validate_session_id uuid_ok session_id of
        Inl r \<Rightarrow> (Inl (reraise_or_500 r), db, [])
      | Inr u \<Rightarrow>
          (case get_conversation db session_id of
             (Inl e, db') \<Rightarrow>
               (Inl (reraise_or_500 (RaisedPy e)), db', [StorageAccess ''get_conversation''])
           | (Inr None, db') \<Rightarrow>
               (Inl (reraise_or_500
                       (RaisedPy (TypeError ''cannot unpack non-iterable NoneType object''))),
                db', [StorageAccess ''get_conversation''])
           | (Inr (Some (conversation, msgs)), db') \<Rightarrow>
               (Inr (conversation, msgs), db', [StorageAccess ''get_conversation''])))"

definition api_update_conversation_title ::
  "(string \<Rightarrow> bool) \<Rightarrow> conversation_db \<Rightarrow> string \<Rightarrow> string \<Rightarrow>
   (http_exception + (string \<times> string)) \<times> conversation_db \<times> effect list" where
  "api_update_conversation_title uuid_ok db session_id title =
     (case validate_session_id uuid_ok session_id of
        Inl r \<Rightarrow> (Inl (reraise_or_500 r), db, [])
      | Inr u \<Rightarrow>
          (case update_conversation_title db session_id title of
             (Inl e, db') \<Rightarrow>
               (Inl (reraise_or_500 (RaisedPy e)), db',
                [StorageAccess ''update_conversation_title''])
           | (Inr success, db') \<Rightarrow>
               (if \<not> success
                then Inl (reraise_or_500 (RaisedHTTP 404 ''Conversation not found''))
                else Inr (session_id, title),
                db', [StorageAccess ''update_conversation_title''])))"

definition api_delete_conversation ::
  "(string \<Rightarrow> bool) \<Rightarrow> conversation_db \<Rightarrow> string \<Rightarrow>
   (http_exception + string) \<times> conversation_db \<times> effect list" where
  "api_delete_conversation uuid_ok db session_id =
     (case validate_session_id uuid_ok session_id of
        Inl r \<Rightarrow> (Inl (reraise_or_500 r), db, [])
      | Inr u \<Rightarrow>
          (case delete_conversation db session_id of
             (Inl e, db') \<Rightarrow>
               (Inl (reraise_or_500 (RaisedPy e)), db', [StorageAccess ''delete_conversation''])
           | (Inr success, db') \<Rightarrow>
               (if \<not> success
                then Inl (reraise_or_500 (RaisedHTTP 404 ''Conversation not found''))
                else Inr session_id,
                db', [StorageAccess ''delete_conversation''])))"

text \<open>
  \<open>add_message\<close>: after the two validations the store method is called with three
  arguments where it takes four without a default, so the call raises TypeError before
  the method is entered (the message of the exception is shortened).
\<close>

definition api_add_message ::
  "(string \<Rightarrow> bool) \<Rightarrow> conversation_db \<Rightarrow> string \<Rightarrow> string \<Rightarrow> string \<Rightarrow>
   (http_exception + string) \<times> conversation_db \<times> effect list" where
  "api_add_message uuid_ok db session_id rl cnt =
     (case validate_session_id uuid_ok session_id of
        Inl r \<Rightarrow> (Inl (reraise_or_500 r), db, [])
      | Inr u \<Rightarrow>
          (if rl \<notin> {''user'', ''assistant'', ''system''}
           then (Inl (reraise_or_500 (RaisedHTTP 400 ''Invalid role specified'')), db, [])
           else (Inl (reraise_or_500
                        (RaisedPy (TypeError ''missing 1 required positional argument''))),
                 db, [])))"

text \<open>
  \<open>stream_response\<close>: after the validation the manager and the queue are created and the
  worker process is started; the answer is the streaming response.
\<close>

datatype streaming_response = StreamingResponse

definition api_stream_response ::
  "(string \<Rightarrow> bool) \<Rightarrow> conversation_db \<Rightarrow> string \<Rightarrow> string \<Rightarrow> bool \<Rightarrow>
   (http_exception + streaming_response) \<times> conversation_db \<times> effect list" where
  "api_stream_response uuid_ok db session_id prm thinking =
     (case validate_session_id uuid_ok session_id of
        Inl r \<Rightarrow> (Inl (always_500 r), db, [])
      | Inr u \<Rightarrow> (Inr StreamingResponse, db, [WorkerDispatch session_id prm thinking]))"

section \<open>A concrete store\<close>

text \<open>
  Stand-ins for the two library readings of a uuid on concrete inputs: \<open>hex32\<close> for
  \<open>uuid.UUID\<close> (32 hexadecimal digits once the hyphens are removed) and
  \<open>demo_uuid_canon\<close> for the server (36 characters of that kind, written in lower
  case).
\<close>

definition hex32 :: "string \<Rightarrow> bool" where
  "hex32 s =
     (let h = filter (\<lambda>c. c \<noteq> CHR ''-'') s
      in length h = 32 \<and> list_all (\<lambda>c. c \<in> set ''0123456789abcdefABCDEF'') h)"

definition lower_hex :: "char \<Rightarrow> char" where
  "lower_hex c =
     (if c = CHR ''A'' then CHR ''a'' else if c = CHR ''B'' then CHR ''b''
      else if c = CHR ''C'' then CHR ''c'' else if c = CHR ''D'' then CHR ''d''
      else if c = CHR ''E'' then CHR ''e'' else if c = CHR ''F'' then CHR ''f'' else c)"

definition demo_uuid_canon :: "string \<Rightarrow> string option" where
  "demo_uuid_canon s = (if length s = 36 \<and> hex32 s then Some (map lower_hex s) else None)"

text \<open>A store with a connection and no rows, and a session id to use in it.\<close>

definition empty_db :: conversation_db where
  "empty_db = \<lparr>connection = True, tx_aborted = False, uuid_canon = demo_uuid_canon,
               conversations = [], conversation_details = [], now = 0\<rparr>"

definition demo_sid :: string where
  "demo_sid = ''6f1c2b9e-5d3a-4e8b-9c47-2a1d0e3f4b5c''"

text \<open>
  The store after \<open>create_conversation(initial_prompt="Trip plans")\<close> on the empty one: the
  conversation has an explicitly chosen title.
\<close>

definition titled_db :: conversation_db where
  "titled_db = snd (create_conversation empty_db demo_sid (Some ''Trip plans''))"

text \<open>A title of 300 characters that begins with the character NUL.\<close>

definition nul_title :: string where
  "nul_title = CHR 0x00 # replicate 299 CHR ''x''"

section \<open>A concrete request\<close>

text \<open>
  The request of the end-to-end scenario: the prompt "2+2?" with reasoning disabled, in
  the conversation of \<open>titled_db\<close>. The engine loads, streams "4" as its only and final
  text and returns one token; the tokenizer of the example decodes every token to "4".
\<close>

definition demo_engine :: engine where
  "demo_engine =
     \<lparr>load_error = None, streamed = [(''4'', True)], generated = Inr [19],
      tokenizer_decode = (\<lambda>ids. replicate (length ids) CHR ''4'')\<rparr>"

definition fresh_bot :: bot where
  "fresh_bot =
     \<lparr>model_loaded = False, history = [], user_input = [], messages = [],
      bot_session_id = []\<rparr>"

definition demo_request :: request where
  "demo_request = \<lparr>req_session_id = demo_sid, req_prompt = ''2+2?'', req_thinking = False\<rparr>"

definition demo_scenario :: scenario where
  "demo_scenario = \<lparr>sc_engine = demo_engine, sc_bot = fresh_bot, sc_request = demo_request\<rparr>"

text \<open>The same request when \<open>model.generate\<close> raises before any text is streamed.\<close>

definition failing_engine :: engine where
  "failing_engine =
     \<lparr>load_error = None, streamed = [], generated = Inl (RuntimeError ''CUDA out of memory''),
      tokenizer_decode = (\<lambda>ids. replicate (length ids) CHR ''4'')\<rparr>"

definition failing_scenario :: scenario where
  "failing_scenario = \<lparr>sc_engine = failing_engine, sc_bot = fresh_bot, sc_request = demo_request\<rparr>"

text \<open>
  The request at the moment the worker process is killed from outside, after it has put
  the frame of "4" on the output queue and before it has put the sentinel.
\<close>

definition killed_after_one_chunk :: sys where
  "killed_after_one_chunk =
     run demo_scenario [Worker, Thread, Worker, Worker, Kill] (init titled_db)"

text \<open>A schedule that runs the request to the end of the stream.\<close>

definition full_schedule :: "actor list" where
  "full_schedule =
     [Worker, Thread, Thread, Worker, Worker, Worker, Worker,
      Consumer, Consumer, Consumer, Consumer]"

text \<open>
  A schedule in which the thread of \<open>run_generate\<close> runs to its end before the main
  thread of the worker and the event generator move again.
\<close>

definition thread_first_schedule :: "actor list" where
  "thread_first_schedule = [Worker, Thread, Thread, Thread, Thread]"

text \<open>
  The same request when \<open>load_model\<close> raises an exception whose message has two lines,
  as the messages of the model library have.
\<close>

definition load_failure_engine :: engine where
  "load_failure_engine =
     \<lparr>load_error = Some [CHR ''a'', newline, CHR ''b''], streamed = [], generated = Inr [],
      tokenizer_decode = (\<lambda>ids. replicate (length ids) CHR ''4'')\<rparr>"

definition load_failure_scenario :: scenario where
  "load_failure_scenario =
     \<lparr>sc_engine = load_failure_engine, sc_bot = fresh_bot, sc_request = demo_request\<rparr>"

text \<open>
  A schedule in which the worker runs through its handler and the event generator
  then drains the output queue.
\<close>

definition handler_schedule :: "actor list" where
  "handler_schedule = [Worker, Worker, Worker, Consumer, Consumer, Consumer, Consumer]"

section \<open>Histories and invariants of a stream request\<close>

text \<open>The items put on the stream queue, and the store written, by a list of actions.\<close>

fun puts_of :: "t_action list \<Rightarrow> string option list" where
  "puts_of [] = []"
| "puts_of (Put item # as) = item # puts_of as"
| "puts_of (AddMessage sid rl cnt rsn # as) = puts_of as"

fun exec_store :: "t_action list \<Rightarrow> conversation_db \<Rightarrow> conversation_db" where
  "exec_store [] db = db"
| "exec_store (Put item # as) db = exec_store as db"
| "exec_store (AddMessage sid rl cnt rsn # as) db =
     exec_store as (snd (add_message db sid rl cnt rsn))"

text \<open>An action that cannot be performed: a parameter of its statement holds NUL.\<close>

fun nul_action :: "t_action \<Rightarrow> bool" where
  "nul_action (Put item) = False"
| "nul_action (AddMessage sid rl cnt rsn) =
     (has_nul sid \<or> has_nul rl \<or> has_nul cnt
      \<or> has_nul (case rsn of None \<Rightarrow> [] | Some r \<Rightarrow> r))"

text \<open>The items of a queue history up to and including the first sentinel.\<close>

fun upto_sentinel :: "string option list \<Rightarrow> string option list" where
  "upto_sentinel [] = []"
| "upto_sentinel (None # q) = [None]"
| "upto_sentinel (Some x # q) = Some x # upto_sentinel q"

text \<open>The strings among the items of a queue history.\<close>

fun fragments_of :: "string option list \<Rightarrow> string list" where
  "fragments_of [] = []"
| "fragments_of (None # q) = fragments_of q"
| "fragments_of (Some x # q) = x # fragments_of q"

text \<open>What the worker puts on the output queue for an item of the stream queue.\<close>

definition frame_item :: "string option \<Rightarrow> string option" where
  "frame_item item = map_option generate_stream_yield item"

text \<open>
  The thread works through \<open>run_generate\<close> in order; the store and the stream queue
  reflect exactly the actions performed. Actions are left undone at the end of the
  thread only when the first of them could not be performed.
\<close>

definition inv_thread :: "scenario \<Rightarrow> conversation_db \<Rightarrow> sys \<Rightarrow> bool" where
  "inv_thread sc db0 s =
     ((if t_started s
       then (\<exists>b undone. worker_start sc = Inr b
                \<and> t_done s @ t_todo s @ undone = run_generate (sc_engine sc) b
                \<and> (undone = [] \<or> (t_todo s = [] \<and> nul_action (hd undone))))
       else t_done s = [] \<and> t_todo s = [])
      \<and> store s = exec_store (t_done s) db0
      \<and> taken s @ stream_queue s = puts_of (t_done s))"

text \<open>What the worker has put on the output queue, by its program counter.\<close>

definition inv_worker :: "scenario \<Rightarrow> sys \<Rightarrow> bool" where
  "inv_worker sc s =
     (case w_pc s of
        WStart \<Rightarrow> \<not> t_started s \<and> produced s = []
      | WStreaming \<Rightarrow>
          t_started s \<and> None \<notin> set (taken s) \<and> produced s = map frame_item (taken s)
      | WPut chunk \<Rightarrow>
          t_started s \<and>
          (\<exists>tk token. taken s = tk @ [Some token] \<and> chunk = generate_stream_yield token
             \<and> None \<notin> set tk \<and> produced s = map frame_item tk)
      | WSignalDone \<Rightarrow>
          t_started s \<and>
          (\<exists>tk. taken s = tk @ [None] \<and> None \<notin> set tk \<and> produced s = map frame_item tk)
      | WExcept e \<Rightarrow> \<not> t_started s \<and> produced s = [] \<and> worker_start sc = Inl e
      | WExceptDone \<Rightarrow>
          \<not> t_started s \<and>
          (\<exists>e. worker_start sc = Inl e \<and> produced s = [Some (error_fragment e)])
      | WExited \<Rightarrow>
          (if t_started s
           then (\<exists>tk. taken s = tk @ [None] \<and> None \<notin> set tk
                   \<and> produced s = map frame_item tk @ [None])
           else (\<exists>e. worker_start sc = Inl e
                   \<and> produced s = [Some (error_fragment e), None])))"

text \<open>The event generator has read a prefix of what was produced and yielded its chunks.\<close>

definition inv_consumer :: "sys \<Rightarrow> bool" where
  "inv_consumer s =
     (received s @ output_queue s = produced s
      \<and> yielded s = map event_generator_response (fragments_of (received s))
      \<and> (c_pc s \<noteq> CDone \<or> None \<in> set (received s) \<or> \<not> alive s))"

definition invariant :: "scenario \<Rightarrow> conversation_db \<Rightarrow> sys \<Rightarrow> bool" where
  "invariant sc db0 s = (inv_thread sc db0 s \<and> inv_worker sc s \<and> inv_consumer s)"

text \<open>
  The consumer steps the event generator needs to end once the worker process is dead,
  and the timed-out reads it may still make: one, when the death finds it waiting on an
  empty queue.
\<close>

definition steps_needed :: "sys \<Rightarrow> nat" where
  "steps_needed s =
     (case c_pc s of
        CDone \<Rightarrow> 0
      | CCheck \<Rightarrow> 2 * length (output_queue s) + 1
      | CGet \<Rightarrow> (if output_queue s = [] then 2 else 2 * length (output_queue s)))"

definition pending_timeout :: "sys \<Rightarrow> nat" where
  "pending_timeout s = (if c_pc s = CGet \<and> output_queue s = [] then 1 else 0)"

text \<open>The state of a stream request started on the store \<open>db0\<close>, after a schedule.\<close>

definition after :: "scenario \<Rightarrow> conversation_db \<Rightarrow> actor list \<Rightarrow> sys" where
  "after sc db0 sched = run sc sched (init db0)"

section \<open>Evaluation of the concrete store\<close>

lemma demo_sid_canon: "demo_uuid_canon demo_sid = Some demo_sid"
  by (simp add: demo_uuid_canon_def hex32_def demo_sid_def lower_hex_def)

lemma demo_sid_no_nul: "\<not> has_nul demo_sid"
  by (simp add: has_nul_def demo_sid_def)

lemma empty_db_fields [simp]:
  "connection empty_db" "\<not> tx_aborted empty_db" "uuid_canon empty_db = demo_uuid_canon"
  "conversations empty_db = []" "conversation_details empty_db = []" "now empty_db = 0"
  by (simp_all add: empty_db_def)

lemma titled_db_eq:
  "titled_db = \<lparr>connection = True, tx_aborted = False, uuid_canon = demo_uuid_canon,
      conversations = [\<lparr>conv_session_id = demo_sid, conv_title = ''Trip plans'',
                        conv_created_at = 0, conv_updated_at = 0\<rparr>],
      conversation_details = [], now = 1\<rparr>"
proof -
  have t: "\<not> has_nul ''Trip plans''" by (simp add: has_nul_def)
  show ?thesis
    by (simp add: titled_db_def create_conversation_def sql_insert_conversation_def
        execute_check_def demo_sid_no_nul demo_sid_canon t empty_db_def commit_def Let_def)
qed

lemma titled_db_fields [simp]:
  "connection titled_db" "\<not> tx_aborted titled_db" "uuid_canon titled_db = demo_uuid_canon"
  "conversations titled_db = [\<lparr>conv_session_id = demo_sid, conv_title = ''Trip plans'',
                                conv_created_at = 0, conv_updated_at = 0\<rparr>]"
  "conversation_details titled_db = []" "now titled_db = 1"
  by (simp_all add: titled_db_eq)

section \<open>Properties of the content splitter\<close>

lemma py_index_absent: "v \<notin> set xs \<Longrightarrow> \<exists>m. py_index xs v = Inl (ValueError m)"
  by (induction xs) auto

lemma py_index_first:
  "v \<notin> set pre \<Longrightarrow> py_index (pre @ v # post) v = Inr (length pre)"
  by (induction pre) auto

lemma last_occurrence_split:
  assumes "v \<in> set xs"
  shows "\<exists>pre post. xs = pre @ v # post \<and> v \<notin> set post"
  using assms split_list_last by fastforce

lemma split_index_at_last:
  assumes "end_of_reasoning \<notin> set post"
  shows "py_index (rev (pre @ end_of_reasoning # post)) end_of_reasoning = Inr (length post)"
    and "split_index (pre @ end_of_reasoning # post) = Inr (Suc (length pre))"
proof -
  have r: "rev (pre @ end_of_reasoning # post) = rev post @ end_of_reasoning # rev pre"
    by simp
  show i: "py_index (rev (pre @ end_of_reasoning # post)) end_of_reasoning = Inr (length post)"
    unfolding r using assms py_index_first [of end_of_reasoning "rev post" "rev pre"] by simp
  show "split_index (pre @ end_of_reasoning # post) = Inr (Suc (length pre))"
    unfolding split_index_def index_try_def i by simp
qed

text \<open>
  C1. If the end-of-reasoning marker 151668 occurs in the raw output, let \<open>p\<close> be the
  position of its last occurrence. The reverse index found by the scan is
  \<open>length - 1 - p\<close>, the split index is \<open>length\<close> minus that reverse index, which is
  \<open>p + 1\<close>; the reasoning text is the decoded (and newline-stripped) tokens \<open>[0, p]\<close>
  and the answer text the decoded tokens \<open>(p, end]\<close>. With several markers the last
  one decides.
\<close>

theorem split_at_last_marker:
  assumes "end_of_reasoning \<in> set response_ids"
  shows "\<exists>p r. p < length response_ids
           \<and> response_ids ! p = end_of_reasoning
           \<and> (\<forall>j. p < j \<and> j < length response_ids \<longrightarrow> response_ids ! j \<noteq> end_of_reasoning)
           \<and> py_index (rev response_ids) end_of_reasoning = Inr r
           \<and> r = length response_ids - 1 - p
           \<and> split_index response_ids = Inr (length response_ids - r)
           \<and> length response_ids - r = p + 1
           \<and> split_response decode response_ids =
               Inr (py_strip_newlines (decode (take (p + 1) response_ids)),
                    py_strip_newlines (decode (drop (p + 1) response_ids)))"
proof -
  from last_occurrence_split [OF assms] obtain pre post
    where xs: "response_ids = pre @ end_of_reasoning # post"
      and post: "end_of_reasoning \<notin> set post"
    by blast
  let ?p = "length pre"
  have p: "?p < length response_ids" by (simp add: xs)
  have at: "response_ids ! ?p = end_of_reasoning" by (simp add: xs)
  have after: "\<forall>j. ?p < j \<and> j < length response_ids \<longrightarrow> response_ids ! j \<noteq> end_of_reasoning"
  proof (intro allI impI)
    fix j assume j: "?p < j \<and> j < length response_ids"
    then have "response_ids ! j = post ! (j - Suc ?p)"
      by (simp add: xs nth_append nth_Cons')
    moreover from j have "j - Suc ?p < length post" by (auto simp: xs)
    ultimately show "response_ids ! j \<noteq> end_of_reasoning"
      using post nth_mem by metis
  qed
  have idx: "py_index (rev response_ids) end_of_reasoning = Inr (length post)"
    unfolding xs by (rule split_index_at_last(1) [OF post])
  have si: "split_index response_ids = Inr (Suc ?p)"
    unfolding xs by (rule split_index_at_last(2) [OF post])
  have r: "length post = length response_ids - 1 - ?p" by (simp add: xs)
  have l: "length response_ids - length post = ?p + 1" by (simp add: xs)
  have sr: "split_response decode response_ids =
      Inr (py_strip_newlines (decode (take (?p + 1) response_ids)),
           py_strip_newlines (decode (drop (?p + 1) response_ids)))"
    by (simp add: split_response_def si)
  from p at after idx r si l sr show ?thesis
    by (intro exI [of _ ?p] exI [of _ "length post"]) simp
qed

theorem split_at_last_marker_witness:
  "end_of_reasoning \<in> set [7, 151668, 8, 151668, 9 :: int]
   \<and> (\<exists>p r. p < length [7, 151668, 8, 151668, 9 :: int]
           \<and> [7, 151668, 8, 151668, 9 :: int] ! p = end_of_reasoning
           \<and> (\<forall>j. p < j \<and> j < length [7, 151668, 8, 151668, 9 :: int]
                  \<longrightarrow> [7, 151668, 8, 151668, 9 :: int] ! j \<noteq> end_of_reasoning)
           \<and> py_index (rev [7, 151668, 8, 151668, 9 :: int]) end_of_reasoning = Inr r
           \<and> r = length [7, 151668, 8, 151668, 9 :: int] - 1 - p
           \<and> split_index [7, 151668, 8, 151668, 9 :: int] = Inr (length [7, 151668, 8, 151668, 9 :: int] - r)
           \<and> length [7, 151668, 8, 151668, 9 :: int] - r = p + 1
           \<and> split_response (\<lambda>ids. replicate (length ids) CHR ''a'') [7, 151668, 8, 151668, 9 :: int] =
               Inr (py_strip_newlines ((\<lambda>ids. replicate (length ids) CHR ''a'') (take (p + 1) [7, 151668, 8, 151668, 9 :: int])),
                    py_strip_newlines ((\<lambda>ids. replicate (length ids) CHR ''a'') (drop (p + 1) [7, 151668, 8, 151668, 9 :: int]))))"
proof -
  have h: "end_of_reasoning \<in> set [7, 151668, 8, 151668, 9 :: int]"
    by (simp add: end_of_reasoning_def)
  from split_at_last_marker [OF h, of "\<lambda>ids. replicate (length ids) CHR ''a''"] h
  show ?thesis by (intro conjI) assumption+
qed

text \<open>
  C2. If the marker does not occur, the scan raises ValueError inside the \<open>try\<close>,
  the handler sets the split index to 0 and the splitter returns normally: the reasoning
  text is the decode of the empty token sequence (empty whenever the tokenizer decodes no
  tokens to no text) and the answer text is the decode of the whole sequence.
\<close>

theorem split_without_marker:
  assumes "end_of_reasoning \<notin> set response_ids"
  shows "(\<exists>m. index_try response_ids = Inl (ValueError m))
       \<and> split_index response_ids = Inr 0
       \<and> split_response decode response_ids =
           Inr (py_strip_newlines (decode []), py_strip_newlines (decode response_ids))
       \<and> (decode [] = [] \<longrightarrow>
            split_response decode response_ids =
              Inr ([], py_strip_newlines (decode response_ids)))"
proof -
  from assms have "end_of_reasoning \<notin> set (rev response_ids)" by simp
  from py_index_absent [OF this] obtain m
    where m: "py_index (rev response_ids) end_of_reasoning = Inl (ValueError m)" by blast
  have t: "index_try response_ids = Inl (ValueError m)"
    by (simp add: index_try_def m)
  have i: "split_index response_ids = Inr 0"
    by (simp add: split_index_def t)
  have s: "split_response decode response_ids =
      Inr (py_strip_newlines (decode []), py_strip_newlines (decode response_ids))"
    by (simp add: split_response_def i)
  have e: "decode [] = [] \<longrightarrow>
      split_response decode response_ids = Inr ([], py_strip_newlines (decode response_ids))"
    by (simp add: s py_strip_newlines_def)
  from t i s e show ?thesis by blast
qed

theorem split_without_marker_witness:
  "end_of_reasoning \<notin> set [7, 8, 9]
   \<and> split_index [7, 8, 9] = Inr 0
   \<and> split_response (\<lambda>ids. replicate (length ids) CHR ''a'') [7, 8, 9] = Inr ([], ''aaa'')"
proof -
  have h: "end_of_reasoning \<notin> set [7, 8, 9]"
    by (simp add: end_of_reasoning_def)
  from split_without_marker [OF h, of "\<lambda>ids. replicate (length ids) CHR ''a''"] h
  show ?thesis by (simp add: py_strip_newlines_def newline_def)
qed

section \<open>Properties of the conversation store\<close>

lemma title_of_commit [simp]: "title_of (commit db) sid = title_of db sid"
  by (simp add: title_of_def commit_def split: option.splits)

lemma has_nul_take: "\<not> has_nul s \<Longrightarrow> \<not> has_nul (take n s)"
  by (auto simp: has_nul_def dest: in_set_takeD)

lemma has_nul_dots [simp]: "has_nul (s @ ''...'') = has_nul s"
  by (simp add: has_nul_def)

lemma execute_check_clean:
  "\<not> tx_aborted db \<Longrightarrow> \<not> list_ex has_nul params \<Longrightarrow> execute_check db params = None"
  by (simp add: execute_check_def)

lemma execute_check_nul:
  "list_ex has_nul params \<Longrightarrow>
   execute_check db params =
     Some (ValueError ''A string literal cannot contain NUL (0x00) characters.'')"
  by (simp add: execute_check_def)

lemma filter_map_retitle:
  "filter (\<lambda>c. conv_session_id c = k)
     (map (\<lambda>c. if conv_session_id c = k then c\<lparr>conv_title := t, conv_updated_at := n\<rparr> else c) cs)
   = map (\<lambda>c. c\<lparr>conv_title := t, conv_updated_at := n\<rparr>) (filter (\<lambda>c. conv_session_id c = k) cs)"
  by (induction cs) auto

lemma retitle_keeps_ids:
  "map conv_session_id
     (map (\<lambda>c. if conv_session_id c = k then c\<lparr>conv_title := t, conv_updated_at := n\<rparr> else c) cs)
   = map conv_session_id cs"
  by (induction cs) auto

lemma known_session_filter:
  "k \<in> set (map conv_session_id cs) \<Longrightarrow> filter (\<lambda>c. conv_session_id c = k) cs \<noteq> []"
  by (induction cs) auto

lemma sql_update_title_known:
  assumes "\<not> tx_aborted db" and "uuid_canon db sid = Some k"
    and "k \<in> set (map conv_session_id (conversations db))"
    and "\<not> has_nul sid" and "\<not> has_nul t"
  shows "\<exists>n db'. sql_update_title db sid t = Inr (n, db') \<and> 0 < n
           \<and> title_of db' sid = Some t
           \<and> connection db' = connection db \<and> uuid_canon db' = uuid_canon db
           \<and> conversation_details db' = conversation_details db \<and> now db' = now db
           \<and> map conv_session_id (conversations db') = map conv_session_id (conversations db)"
proof -
  from known_session_filter [OF assms(3)] obtain c cs
    where f: "filter (\<lambda>c. conv_session_id c = k) (conversations db) = c # cs"
    by (cases "filter (\<lambda>c. conv_session_id c = k) (conversations db)") auto
  have e: "execute_check db [t, sid] = None"
    using assms(1,4,5) by (simp add: execute_check_def)
  show ?thesis
    using assms(2) f
    by (simp add: sql_update_title_def e title_of_def filter_map_retitle retitle_keeps_ids)
qed

lemma update_conversation_title_in_known:
  assumes "connection db" and "\<not> tx_aborted db" and "uuid_canon db sid = Some k"
    and "k \<in> set (map conv_session_id (conversations db))"
    and "\<not> has_nul sid"
    and "\<not> has_nul (if 255 < length t then take 252 t @ ''...'' else t)"
  shows "\<exists>db'. update_conversation_title_in c db sid t = (Inr True, db')
           \<and> title_of db' sid = Some (if 255 < length t then take 252 t @ ''...'' else t)
           \<and> connection db' \<and> \<not> tx_aborted db' \<and> uuid_canon db' = uuid_canon db
           \<and> conversation_details db' = conversation_details db \<and> now db' = Suc (now db)
           \<and> map conv_session_id (conversations db') = map conv_session_id (conversations db)"
proof -
  let ?t = "if 255 < length t then take 252 t @ ''...'' else t"
  from sql_update_title_known [OF assms(2,3,4,5,6)] obtain n db1
    where u: "sql_update_title db sid ?t = Inr (n, db1)" and n: "0 < n"
      and t: "title_of db1 sid = Some ?t"
      and k: "connection db1 = connection db" "uuid_canon db1 = uuid_canon db"
        "conversation_details db1 = conversation_details db" "now db1 = now db"
        "map conv_session_id (conversations db1) = map conv_session_id (conversations db)"
    by blast
  have "update_conversation_title_in c db sid t = (Inr True, commit db1)"
    using assms(1) u n by (simp add: update_conversation_title_in_def Let_def)
  moreover have "title_of (commit db1) sid = Some ?t" using t by simp
  ultimately show ?thesis
    using k assms(1) by (simp add: commit_def)
qed

lemma update_conversation_title_nul:
  assumes "connection db"
    and "has_nul (if 255 < length t then take 252 t @ ''...'' else t)"
  shows "update_conversation_title db sid t =
           (Inl (ValueError ''A string literal cannot contain NUL (0x00) characters.''), db)"
proof -
  let ?t = "if 255 < length t then take 252 t @ ''...'' else t"
  have "execute_check db [?t, sid] =
      Some (ValueError ''A string literal cannot contain NUL (0x00) characters.'')"
    using assms(2) by (intro execute_check_nul) simp
  then have "sql_update_title db sid ?t =
      Inl (ValueError ''A string literal cannot contain NUL (0x00) characters.'')"
    by (simp add: sql_update_title_def)
  then show ?thesis
    using assms(1)
    by (simp add: update_conversation_title_def update_conversation_title_in_def Let_def)
qed

text \<open>
  C10, the claim as it is written, fails: \<open>nul_title\<close> has 300 characters and begins
  with NUL. \<open>cursor.execute\<close> raises ValueError for the cut title, the handler of
  \<open>update_conversation_title\<close> catches \<open>psycopg2.Error\<close> only, and the call ends in
  that exception with the store and its title unchanged.
\<close>

theorem nul_title_rejected:
  "255 < length nul_title
   \<and> update_conversation_title titled_db demo_sid nul_title =
       (Inl (ValueError ''A string literal cannot contain NUL (0x00) characters.''), titled_db)
   \<and> title_of titled_db demo_sid = Some ''Trip plans''"
proof -
  have l: "255 < length nul_title" by (simp add: nul_title_def)
  have n: "has_nul (if 255 < length nul_title then take 252 nul_title @ ''...'' else nul_title)"
    by (simp add: nul_title_def has_nul_def)
  have c: "connection titled_db" by simp
  have t: "title_of titled_db demo_sid = Some ''Trip plans''"
    by (simp add: title_of_def demo_sid_canon)
  from l update_conversation_title_nul [OF c n] t show ?thesis by simp
qed

text \<open>
  C10 as amended. On a connection with no aborted transaction, for a known session and
  a session id without NUL: a title longer than 255 characters whose first 252
  characters hold no NUL is stored as these 252 characters followed by "...", which is
  exactly 255 characters, and the call succeeds; a title of at most 255 characters
  without NUL is stored unchanged; a title whose part to store holds NUL is rejected
  with the ValueError of \<open>cursor.execute\<close> and the store stays as it was.
\<close>

theorem update_title_truncation:
  assumes "connection db" and "\<not> tx_aborted db"
    and "uuid_canon db sid = Some k"
    and "k \<in> set (map conv_session_id (conversations db))"
    and "\<not> has_nul sid"
  shows "(255 < length t \<and> \<not> has_nul (take 252 t) \<longrightarrow>
            fst (update_conversation_title db sid t) = Inr True
            \<and> title_of (snd (update_conversation_title db sid t)) sid = Some (take 252 t @ ''...'')
            \<and> length (take 252 t @ ''...'') = 255)
       \<and> (length t \<le> 255 \<and> \<not> has_nul t \<longrightarrow>
            fst (update_conversation_title db sid t) = Inr True
            \<and> title_of (snd (update_conversation_title db sid t)) sid = Some t)
       \<and> (has_nul (if 255 < length t then take 252 t @ ''...'' else t) \<longrightarrow>
            update_conversation_title db sid t =
              (Inl (ValueError ''A string literal cannot contain NUL (0x00) characters.''), db))"
proof -
  let ?t = "if 255 < length t then take 252 t @ ''...'' else t"
  have ok: "\<not> has_nul ?t \<Longrightarrow>
      fst (update_conversation_title db sid t) = Inr True
      \<and> title_of (snd (update_conversation_title db sid t)) sid = Some ?t"
  proof -
    assume "\<not> has_nul ?t"
    from update_conversation_title_in_known [OF assms this, of db]
    show ?thesis by (auto simp: update_conversation_title_def)
  qed
  have long: "255 < length t \<and> \<not> has_nul (take 252 t) \<longrightarrow>
            fst (update_conversation_title db sid t) = Inr True
            \<and> title_of (snd (update_conversation_title db sid t)) sid = Some (take 252 t @ ''...'')
            \<and> length (take 252 t @ ''...'') = 255"
    using ok by auto
  have short: "length t \<le> 255 \<and> \<not> has_nul t \<longrightarrow>
            fst (update_conversation_title db sid t) = Inr True
            \<and> title_of (snd (update_conversation_title db sid t)) sid = Some t"
    using ok by auto
  from long short update_conversation_title_nul [OF assms(1), of t sid] show ?thesis by blast
qed

theorem update_title_truncation_witness:
  "connection titled_db \<and> \<not> tx_aborted titled_db
   \<and> uuid_canon titled_db demo_sid = Some demo_sid
   \<and> demo_sid \<in> set (map conv_session_id (conversations titled_db))
   \<and> \<not> has_nul demo_sid
   \<and> 255 < length (replicate 300 CHR ''x'') \<and> \<not> has_nul (take 252 (replicate 300 CHR ''x''))
   \<and> fst (update_conversation_title titled_db demo_sid (replicate 300 CHR ''x'')) = Inr True
   \<and> title_of (snd (update_conversation_title titled_db demo_sid (replicate 300 CHR ''x''))) demo_sid
       = Some (replicate 252 CHR ''x'' @ ''...'')
   \<and> length (replicate 252 CHR ''x'' @ ''...'') = 255
   \<and> length ''short'' \<le> 255 \<and> \<not> has_nul ''short''
   \<and> title_of (snd (update_conversation_title titled_db demo_sid ''short'')) demo_sid
       = Some ''short''
   \<and> has_nul (if 255 < length nul_title then take 252 nul_title @ ''...'' else nul_title)
   \<and> fst (update_conversation_title titled_db demo_sid nul_title) =
       Inl (ValueError ''A string literal cannot contain NUL (0x00) characters.'')"
proof -
  have c: "connection titled_db" and a: "\<not> tx_aborted titled_db" by simp_all
  have u: "uuid_canon titled_db demo_sid = Some demo_sid" by (simp add: demo_sid_canon)
  have k: "demo_sid \<in> set (map conv_session_id (conversations titled_db))" by simp
  note n = demo_sid_no_nul
  have x: "\<not> has_nul (take 252 (replicate 300 CHR ''x''))" "\<not> has_nul ''short''"
    by (simp_all add: has_nul_def)
  have z: "has_nul (if 255 < length nul_title then take 252 nul_title @ ''...'' else nul_title)"
    by (simp add: nul_title_def has_nul_def)
  from update_title_truncation [OF c a u k n, of "replicate 300 CHR ''x''"]
    update_title_truncation [OF c a u k n, of "''short''"]
    update_title_truncation [OF c a u k n, of nul_title] c a u k n x z
  show ?thesis by simp
qed

lemma spec_title_long: "100 < length s \<Longrightarrow> spec_title s = take 100 s @ ''...''"
  by (simp add: spec_title_def)

lemma spec_title_short: "length s \<le> 100 \<Longrightarrow> spec_title s = s"
  by (simp add: spec_title_def)

lemma spec_title_length: "100 < length s \<Longrightarrow> length (spec_title s) = 103"
  by (simp add: spec_title_def)

lemma code_title_is_spec_title:
  "(if 100 < length s then take 100 s @ ''...'' else s) = spec_title s"
  by (simp add: spec_title_def)

lemma spec_title_fits: "\<not> 255 < length (spec_title s)"
  by (simp add: spec_title_def)

lemma spec_title_no_nul: "\<not> has_nul s \<Longrightarrow> \<not> has_nul (spec_title s)"
  by (simp add: spec_title_def has_nul_take)

lemma create_conversation_title:
  assumes "create_conversation db u p = (Inr sid, db')" and "connection db"
  shows "sid = u"
    and "title_of db' sid =
           Some (spec_title (case p of None \<Rightarrow> ''New Conversation''
                             | Some q \<Rightarrow> if q = [] then ''New Conversation'' else q))"
proof -
  let ?ip = "case p of None \<Rightarrow> ''New Conversation''
             | Some q \<Rightarrow> if q = [] then ''New Conversation'' else q"
  have ne: "?ip \<noteq> []" by (simp split: option.splits)
  obtain db1 where ins: "sql_insert_conversation db u (spec_title ?ip) = Inr db1"
    and out: "sid = u" "db' = commit db1"
    using assms ne
    by (auto simp: create_conversation_def Let_def code_title_is_spec_title
        split: sum.splits if_splits py_exception.splits)
  show "sid = u" by (rule out)
  from ins obtain k where k: "uuid_canon db u = Some k"
    and fresh: "k \<notin> set (map conv_session_id (conversations db))"
    and db1: "db1 = db\<lparr>conversations := conversations db @
                 [\<lparr>conv_session_id = k, conv_title = spec_title ?ip,
                   conv_created_at = now db, conv_updated_at = now db\<rparr>]\<rparr>"
    by (auto simp: sql_insert_conversation_def split: option.splits if_splits)
  from fresh have "filter (\<lambda>c. conv_session_id c = k) (conversations db) = []"
    by (auto simp: filter_empty_conv)
  then show "title_of db' sid = Some (spec_title ?ip)"
    by (simp add: out db1 title_of_def k commit_def)
qed

lemma title_of_insert_detail:
  "sql_insert_detail db sid rl cnt rsn = Inr db1 \<Longrightarrow> title_of db1 sid' = title_of db sid'"
  by (auto simp: sql_insert_detail_def title_of_def split: option.splits if_splits)

lemma insert_detail_facts:
  assumes "sql_insert_detail db sid rl cnt rsn = Inr db1"
  shows "\<not> tx_aborted db1"
    and "\<exists>k. uuid_canon db1 sid = Some k \<and> k \<in> set (map conv_session_id (conversations db1))"
    and "\<not> has_nul sid" and "\<not> has_nul cnt"
    and "connection db1 = connection db"
    and "\<forall>n. sql_count_details db sid = Inr n \<longrightarrow> sql_count_details db1 sid = Inr (Suc n)"
    and "\<exists>n. sql_count_details db sid = Inr n"
  using assms
  by (auto simp: sql_insert_detail_def sql_count_details_def execute_check_def
      split: option.splits if_splits)

lemma add_message_first_user:
  assumes "add_message db sid ''user'' cnt r = (Inr True, db')"
    and "sql_count_details db sid = Inr 0"
  shows "title_of db' sid = Some (spec_title cnt)"
proof -
  from assms(1) have c: "connection db"
    by (auto simp: add_message_def split: if_splits)
  from assms(1) c obtain db1
    where ins: "sql_insert_detail db sid ''user'' cnt (case r of None \<Rightarrow> [] | Some x \<Rightarrow> x) = Inr db1"
    by (auto simp: add_message_def Let_def split: sum.splits py_exception.splits)
  note f = insert_detail_facts [OF ins]
  from f(6) assms(2) have one: "sql_count_details db1 sid = Inr 1" by simp
  from f(2) obtain k where k: "uuid_canon db1 sid = Some k"
    "k \<in> set (map conv_session_id (conversations db1))" by blast
  have c1: "connection db1" using f(5) c by simp
  have nn: "\<not> has_nul (if 255 < length (spec_title cnt)
                          then take 252 (spec_title cnt) @ ''...'' else spec_title cnt)"
    using spec_title_fits [of cnt] spec_title_no_nul [OF f(4)] by simp
  from update_conversation_title_in_known [OF c1 f(1) k f(3) nn, of db]
  obtain db2 where u: "update_conversation_title_in db db1 sid (spec_title cnt) = (Inr True, db2)"
    and t: "title_of db2 sid = Some (spec_title cnt)"
    using spec_title_fits [of cnt] by auto
  from assms(1) c ins one u have "db' = commit db2"
    by (simp add: add_message_def Let_def code_title_is_spec_title)
  with t show ?thesis by simp
qed

lemma add_message_other:
  assumes "add_message db sid rl cnt r = (Inr True, db')"
    and "rl \<noteq> ''user'' \<or> sql_count_details db sid \<noteq> Inr 0"
  shows "title_of db' sid' = title_of db sid'"
proof -
  from assms(1) have c: "connection db"
    by (auto simp: add_message_def split: if_splits)
  from assms(1) c obtain db1
    where ins: "sql_insert_detail db sid rl cnt (case r of None \<Rightarrow> [] | Some x \<Rightarrow> x) = Inr db1"
    by (auto simp: add_message_def Let_def split: sum.splits py_exception.splits)
  note f = insert_detail_facts [OF ins]
  have "db' = commit db1"
  proof (cases "rl = ''user''")
    case False
    with assms(1) c ins show ?thesis by (simp add: add_message_def Let_def)
  next
    case True
    from f(7) obtain m where m: "sql_count_details db sid = Inr m" by blast
    with True assms(2) have "m \<noteq> 0" by auto
    then obtain n where "m = Suc n" by (cases m) auto
    with f(6) m have "sql_count_details db1 sid = Inr (Suc (Suc n))" by simp
    with assms(1) c ins True show ?thesis by (simp add: add_message_def Let_def)
  qed
  then show ?thesis by (simp add: title_of_insert_detail [OF ins])
qed

text \<open>
  C9, the claim as it is written, fails: the conversation of \<open>titled_db\<close> was created with
  the explicit title "Trip plans", and its first user message "hello" replaces that title.
\<close>

theorem explicit_title_overwritten:
  "title_of titled_db demo_sid = Some ''Trip plans''
   \<and> sql_count_details titled_db demo_sid = Inr 0
   \<and> fst (add_message titled_db demo_sid ''user'' ''hello'' None) = Inr True
   \<and> title_of (snd (add_message titled_db demo_sid ''user'' ''hello'' None)) demo_sid
       = Some ''hello''"
proof -
  have h: "\<not> has_nul ''user''" "\<not> has_nul ''hello''" "\<not> has_nul []"
    by (simp_all add: has_nul_def)
  show ?thesis
    by (simp add: title_of_def add_message_def sql_insert_detail_def sql_count_details_def
        update_conversation_title_in_def sql_update_title_def execute_check_def
        demo_sid_canon demo_sid_no_nul h commit_def Let_def)
qed

text \<open>
  C9 as amended. \<open>create_conversation\<close> stores as title the prompt (or "New Conversation"
  for an absent or empty one) cut by the rule of the specification: more than 100
  characters give the first 100 followed by "...", 103 characters in all, and at most 100
  characters are kept unchanged. \<open>add_message\<close> applies the same rule to the content of a
  message with role "user" that is the first row of its conversation, and replaces the
  title with the result whatever the title was before; any other message leaves every
  title as it is.
\<close>

theorem title_derivation:
  "(create_conversation db u p = (Inr sid, db') \<and> connection db \<longrightarrow>
      title_of db' sid =
        Some (spec_title (case p of None \<Rightarrow> ''New Conversation''
                          | Some q \<Rightarrow> if q = [] then ''New Conversation'' else q)))
   \<and> (add_message db sid ''user'' cnt r = (Inr True, db') \<and> sql_count_details db sid = Inr 0 \<longrightarrow>
        title_of db' sid = Some (spec_title cnt))
   \<and> (add_message db sid rl cnt r = (Inr True, db')
        \<and> (rl \<noteq> ''user'' \<or> sql_count_details db sid \<noteq> Inr 0) \<longrightarrow>
        title_of db' sid' = title_of db sid')
   \<and> (100 < length s \<longrightarrow> spec_title s = take 100 s @ ''...'' \<and> length (spec_title s) = 103)
   \<and> (length s \<le> 100 \<longrightarrow> spec_title s = s)"
  using create_conversation_title(2) [of db u p sid db'] add_message_first_user [of db sid cnt r db']
    add_message_other [of db sid rl cnt r db' sid'] spec_title_long [of s] spec_title_short [of s]
    spec_title_length [of s]
  by blast

theorem title_derivation_witness:
  "create_conversation empty_db demo_sid (Some (replicate 150 CHR ''a''))
     = (Inr demo_sid, snd (create_conversation empty_db demo_sid (Some (replicate 150 CHR ''a''))))
   \<and> connection empty_db
   \<and> title_of (snd (create_conversation empty_db demo_sid (Some (replicate 150 CHR ''a''))))
        demo_sid = Some (replicate 100 CHR ''a'' @ ''...'')
   \<and> length (spec_title (replicate 150 CHR ''a'')) = 103
   \<and> spec_title (replicate 50 CHR ''a'') = replicate 50 CHR ''a''
   \<and> add_message titled_db demo_sid ''user'' ''hello'' None
        = (Inr True, snd (add_message titled_db demo_sid ''user'' ''hello'' None))
   \<and> sql_count_details titled_db demo_sid = Inr 0
   \<and> title_of (snd (add_message titled_db demo_sid ''user'' ''hello'' None)) demo_sid
        = Some ''hello''
   \<and> add_message titled_db demo_sid ''assistant'' ''hello'' None
        = (Inr True, snd (add_message titled_db demo_sid ''assistant'' ''hello'' None))
   \<and> title_of (snd (add_message titled_db demo_sid ''assistant'' ''hello'' None)) demo_sid
        = Some ''Trip plans''"
proof -
  let ?long = "replicate 150 CHR ''a''"
  let ?d1 = "snd (create_conversation empty_db demo_sid (Some ?long))"
  let ?d2 = "snd (add_message titled_db demo_sid ''user'' ''hello'' None)"
  let ?d3 = "snd (add_message titled_db demo_sid ''assistant'' ''hello'' None)"
  have h: "\<not> has_nul ''user''" "\<not> has_nul ''hello''" "\<not> has_nul []"
    "\<not> has_nul ''assistant''" "\<not> has_nul (replicate 100 CHR ''a'')"
    by (simp_all add: has_nul_def)
  have c: "create_conversation empty_db demo_sid (Some ?long) = (Inr demo_sid, ?d1)"
    by (simp add: create_conversation_def sql_insert_conversation_def execute_check_def
        demo_sid_canon demo_sid_no_nul h Let_def)
  have n: "connection empty_db" by simp
  have z: "sql_count_details titled_db demo_sid = Inr 0"
    by (simp add: sql_count_details_def execute_check_def demo_sid_canon demo_sid_no_nul)
  have u: "add_message titled_db demo_sid ''user'' ''hello'' None = (Inr True, ?d2)"
    by (simp add: add_message_def sql_insert_detail_def sql_count_details_def
        update_conversation_title_in_def sql_update_title_def execute_check_def
        demo_sid_canon demo_sid_no_nul h Let_def)
  have a: "add_message titled_db demo_sid ''assistant'' ''hello'' None = (Inr True, ?d3)"
    by (simp add: add_message_def sql_insert_detail_def execute_check_def
        demo_sid_canon demo_sid_no_nul h Let_def)
  have before: "title_of titled_db demo_sid = Some ''Trip plans''"
    by (simp add: title_of_def demo_sid_canon)
  have l150: "100 < length ?long" by simp
  have l50: "length (replicate 50 CHR ''a'') \<le> 100" by simp
  have r1: "title_of ?d1 demo_sid = Some (spec_title ?long)"
    using title_derivation [of empty_db demo_sid "Some ?long" demo_sid ?d1] c n by simp
  have r2: "spec_title ?long = take 100 ?long @ ''...'' \<and> length (spec_title ?long) = 103"
    using title_derivation [of _ _ _ _ _ _ _ _ _ ?long] l150 by blast
  have r3: "spec_title (replicate 50 CHR ''a'') = replicate 50 CHR ''a''"
    using title_derivation [of _ _ _ _ _ _ _ _ _ "replicate 50 CHR ''a''"] l50 by blast
  have r4: "title_of ?d2 demo_sid = Some (spec_title ''hello'')"
    using title_derivation [of titled_db _ _ demo_sid ?d2 "''hello''" None] u z by blast
  have r5: "title_of ?d3 demo_sid = title_of titled_db demo_sid"
    using title_derivation [of titled_db _ _ demo_sid ?d3 "''hello''" None "''assistant''" demo_sid] a
    by simp
  have s: "spec_title ''hello'' = ''hello''" by (simp add: spec_title_def)
  from c n z u a r1 r2 r3 r4 r5 before s show ?thesis by simp
qed

section \<open>Properties of the wire framing\<close>

lemma py_replace_char_absent:
  "old \<notin> set new \<Longrightarrow> old \<notin> set (py_replace_char old new s)"
  by (induction s) (auto simp: py_replace_char_def)

lemma escaped_has_no_newline:
  "newline \<notin> set (py_replace_char newline [backslash, CHR ''n''] token)"
  by (rule py_replace_char_absent) (simp add: newline_def backslash_def)

text \<open>
  A text fragment: \<open>generate_stream\<close> replaces every newline by backslash and n, frames
  the text between \<open>data: \<close> and two newlines, and \<open>event_generator\<close> sends the frame
  followed by backslash, n, backslash, n and two newlines.
\<close>

lemma text_fragment_framing:
  "py_replace_char newline [backslash, CHR ''n''] token =
     concat (map (\<lambda>c. if c = newline then [backslash, CHR ''n''] else [c]) token)"
  "newline \<notin> set (py_replace_char newline [backslash, CHR ''n''] token)"
  "generate_stream_yield token =
     ''data: '' @ py_replace_char newline [backslash, CHR ''n''] token @ [newline, newline]"
  "event_generator_response chunk =
     chunk @ [backslash, CHR ''n'', backslash, CHR ''n'', newline, newline]"
  using escaped_has_no_newline [of token]
  by (simp_all add: generate_stream_yield_def Let_def event_generator_response_def)
    (simp add: py_replace_char_def)

text \<open>The sentinel gives no frame, in \<open>generate_stream\<close> and in \<open>event_generator\<close>.\<close>

lemma consumer_step_sentinel:
  assumes "c_pc s = CGet" and "output_queue s = None # q"
  shows "yielded (consumer_step s) = yielded s" and "c_pc (consumer_step s) = CDone"
  using assms by (simp_all add: consumer_step_def)

lemma worker_step_sentinel:
  assumes "\<not> killed s" and "w_pc s = WStreaming" and "stream_queue s = None # q"
  shows "produced (worker_step sc s) = produced s"
    and "produced (worker_step sc (worker_step sc s)) = produced s @ [None]"
  using assms by (simp_all add: worker_step_def)

lemma handler_schedule_yields:
  assumes "worker_start sc = Inl e"
  shows "yielded (after sc db0 handler_schedule) = [event_generator_response (error_fragment e)]"
  using assms
  by (simp add: after_def handler_schedule_def run_def step_def worker_step_def
      consumer_step_def init_def alive_def)

lemma unescaped_differs:
  assumes "newline \<in> set m"
  shows "''data: ERROR: '' @ m @ [newline, newline] \<noteq> generate_stream_yield (''ERROR: '' @ m)"
proof
  assume "''data: ERROR: '' @ m @ [newline, newline] = generate_stream_yield (''ERROR: '' @ m)"
  then have "''ERROR: '' @ m = py_replace_char newline [backslash, CHR ''n''] (''ERROR: '' @ m)"
    by (simp add: generate_stream_yield_def Let_def)
  moreover from assms have "newline \<in> set (''ERROR: '' @ m)" by simp
  ultimately show False
    using escaped_has_no_newline [of "''ERROR: '' @ m"] by metis
qed

text \<open>
  C7 at an error fragment. When the head of \<open>worker_process\<close> raises, the chunk that
  reaches the client is the error fragment followed by the suffix of \<open>event_generator\<close>,
  and the error fragment holds \<open>str(e)\<close> as it is: a newline of the message is still a
  newline in the fragment, where the claim, and \<open>generate_stream\<close> for a text
  fragment, replace it by backslash and n before framing.
\<close>

theorem error_fragment_not_escaped:
  assumes "worker_start sc = Inl e"
  shows "yielded (after sc db0 handler_schedule) =
           [''data: ERROR: '' @ str_exc e @
            [newline, newline, backslash, CHR ''n'', backslash, CHR ''n'', newline, newline]]
       \<and> (newline \<in> set (str_exc e) \<longrightarrow>
            error_fragment e \<noteq> generate_stream_yield (''ERROR: '' @ str_exc e))"
proof -
  have "yielded (after sc db0 handler_schedule) =
      [''data: ERROR: '' @ str_exc e @
       [newline, newline, backslash, CHR ''n'', backslash, CHR ''n'', newline, newline]]"
    by (simp add: handler_schedule_yields [OF assms] event_generator_response_def
        error_fragment_def)
  moreover have "newline \<in> set (str_exc e) \<longrightarrow>
      error_fragment e \<noteq> generate_stream_yield (''ERROR: '' @ str_exc e)"
    using unescaped_differs [of "str_exc e"] by (simp add: error_fragment_def)
  ultimately show ?thesis by blast
qed

lemma load_failure_worker_start:
  "worker_start load_failure_scenario = Inl (EngineError [CHR ''a'', newline, CHR ''b''])"
  by (simp add: worker_start_def load_failure_scenario_def load_failure_engine_def
      fresh_bot_def load_model_def)

theorem error_fragment_not_escaped_witness:
  "worker_start load_failure_scenario = Inl (EngineError [CHR ''a'', newline, CHR ''b''])
   \<and> newline \<in> set (str_exc (EngineError [CHR ''a'', newline, CHR ''b'']))
   \<and> yielded (after load_failure_scenario titled_db handler_schedule) =
       [''data: ERROR: a'' @ [newline] @ ''b'' @
        [newline, newline, backslash, CHR ''n'', backslash, CHR ''n'', newline, newline]]
   \<and> error_fragment (EngineError [CHR ''a'', newline, CHR ''b'']) \<noteq>
       generate_stream_yield (''ERROR: '' @ [CHR ''a'', newline, CHR ''b''])"
proof -
  have n: "newline \<in> set (str_exc (EngineError [CHR ''a'', newline, CHR ''b'']))" by simp
  from error_fragment_not_escaped [OF load_failure_worker_start, of titled_db] n
    load_failure_worker_start
  show ?thesis by simp
qed

section \<open>Properties of the endpoints\<close>

text \<open>
  The four endpoints whose handler re-raises an \<open>HTTPException\<close> answer a malformed
  session id with status 400, enter no method of the store and leave it unchanged.
\<close>

lemma malformed_id_rejected_with_400:
  assumes "\<not> uuid_ok sid"
  shows "api_get_conversation uuid_ok db sid =
           (Inl (HTTPException 400 (Text ''Invalid session ID format'')), db, [])"
    and "api_update_conversation_title uuid_ok db sid t =
           (Inl (HTTPException 400 (Text ''Invalid session ID format'')), db, [])"
    and "api_delete_conversation uuid_ok db sid =
           (Inl (HTTPException 400 (Text ''Invalid session ID format'')), db, [])"
    and "api_add_message uuid_ok db sid rl cnt =
           (Inl (HTTPException 400 (Text ''Invalid session ID format'')), db, [])"
  using assms
  by (simp_all add: api_get_conversation_def api_update_conversation_title_def
      api_delete_conversation_def api_add_message_def validate_session_id_def
      reraise_or_500_def)

text \<open>
  C8 at the stream endpoint. A malformed session id raises the \<open>HTTPException\<close> with
  status 400 inside the \<open>try\<close> of \<open>stream_response\<close>, whose only handler catches every
  exception and raises status 500 with \<open>str(e)\<close> as detail. No worker is dispatched and
  the store is not touched, but the answer is 500 where the claim and the four other
  endpoints give 400.
\<close>

theorem stream_malformed_id_gives_500:
  assumes "\<not> uuid_ok sid"
  shows "api_stream_response uuid_ok db sid prm thinking =
           (Inl (HTTPException 500 (StrOf (RaisedHTTP 400 ''Invalid session ID format''))),
            db, [])"
  using assms
  by (simp add: api_stream_response_def validate_session_id_def always_500_def)

theorem stream_malformed_id_gives_500_witness:
  "\<not> hex32 ''not-a-uuid''
   \<and> api_stream_response hex32 titled_db ''not-a-uuid'' ''2+2?'' False =
       (Inl (HTTPException 500 (StrOf (RaisedHTTP 400 ''Invalid session ID format''))),
        titled_db, [])"
proof -
  have h: "\<not> hex32 ''not-a-uuid''" by (simp add: hex32_def)
  from stream_malformed_id_gives_500 [of hex32 "''not-a-uuid''" titled_db "''2+2?''" False] h
  show ?thesis by simp
qed

section \<open>Evaluation of the concrete request\<close>

lemma run_Nil [simp]: "run sc [] s = s"
  by (simp add: run_def)

lemma run_Cons [simp]: "run sc (a # sched) s = run sc sched (step sc a s)"
  by (simp add: run_def)

lemma run_append: "run sc (xs @ ys) s = run sc ys (run sc xs s)"
  by (simp add: run_def)

lemmas demo_defs =
  demo_scenario_def demo_engine_def fresh_bot_def demo_request_def
  failing_scenario_def failing_engine_def
  worker_start_def load_model_def prompt_def generate_stream_checks_def
  run_generate_def on_finalized_text_def split_response_def split_index_def index_try_def
  end_of_reasoning_def py_strip_newlines_def

lemmas step_defs =
  step_def thread_step_def worker_step_def consumer_step_def alive_def init_def

lemma demo_worker_start:
  "worker_start demo_scenario =
     Inr \<lparr>model_loaded = True, history = [], user_input = ''2+2?'',
          messages = [(''user'', ''2+2?'')], bot_session_id = demo_sid\<rparr>"
  by (simp add: demo_defs Let_def)

lemma demo_run_generate:
  "run_generate demo_engine
     \<lparr>model_loaded = True, history = [], user_input = ''2+2?'',
      messages = [(''user'', ''2+2?'')], bot_session_id = demo_sid\<rparr> =
   [Put (Some ''4''), Put None, AddMessage demo_sid ''user'' ''2+2?'' None,
    AddMessage demo_sid ''assistant'' ''4'' (Some [])]"
  by (simp add: demo_defs newline_def)

lemma demo_scenario_engine [simp]: "sc_engine demo_scenario = demo_engine"
  by (simp add: demo_scenario_def)

lemma killed_after_one_chunk_fields:
  "killed killed_after_one_chunk"
  "output_queue killed_after_one_chunk = [Some (generate_stream_yield ''4'')]"
  "c_pc killed_after_one_chunk = CCheck"
  "timeouts killed_after_one_chunk = 0"
  by (simp_all add: killed_after_one_chunk_def step_defs demo_worker_start demo_run_generate)

section \<open>Properties of the consumer loop\<close>

lemma thread_step_dead: "\<not> alive s \<Longrightarrow> thread_step s = s"
  by (auto simp: alive_def thread_step_def)

lemma worker_step_dead: "\<not> alive s \<Longrightarrow> worker_step sc s = s"
  by (auto simp: alive_def worker_step_def)

lemma alive_consumer_step [simp]: "alive (consumer_step s) = alive s"
  by (auto simp: alive_def consumer_step_def split: c_state.splits list.splits option.splits)

lemma dead_stays_dead: "\<not> alive s \<Longrightarrow> \<not> alive (step sc a s)"
  by (cases a) (simp_all add: step_def thread_step_dead worker_step_dead, simp add: alive_def)

lemma dead_step_other:
  assumes "\<not> alive s" and "a \<noteq> Consumer"
  shows "output_queue (step sc a s) = output_queue s"
    and "c_pc (step sc a s) = c_pc s"
    and "timeouts (step sc a s) = timeouts s"
  using assms by (cases a; simp add: step_def thread_step_dead worker_step_dead)+

lemma dead_consumer_step:
  assumes "\<not> alive s" and "None \<notin> set (output_queue s)"
  shows "None \<notin> set (output_queue (consumer_step s))"
    and "steps_needed (consumer_step s) = steps_needed s - 1"
    and "timeouts (consumer_step s) + pending_timeout (consumer_step s)
           \<le> timeouts s + pending_timeout s"
  using assms
  by (auto simp: consumer_step_def steps_needed_def pending_timeout_def
      split: c_state.splits list.splits option.splits)

lemma dead_timeouts_bounded:
  "\<not> alive s \<Longrightarrow> None \<notin> set (output_queue s) \<Longrightarrow>
   timeouts (run sc sched s) + pending_timeout (run sc sched s) \<le> timeouts s + pending_timeout s"
proof (induction sched arbitrary: s)
  case Nil
  then show ?case by simp
next
  case (Cons a sched)
  let ?s = "step sc a s"
  have d: "\<not> alive ?s" by (rule dead_stays_dead [OF Cons.prems(1)])
  show ?case
  proof (cases "a = Consumer")
    case True
    then have st: "?s = consumer_step s" by (simp add: step_def)
    from dead_consumer_step [OF Cons.prems] st
    have n: "None \<notin> set (output_queue ?s)"
      and t: "timeouts ?s + pending_timeout ?s \<le> timeouts s + pending_timeout s"
      by simp_all
    from Cons.IH [OF d n] t show ?thesis by simp
  next
    case False
    from dead_step_other [OF Cons.prems(1) False, of sc]
    have e: "output_queue ?s = output_queue s" "c_pc ?s = c_pc s" "timeouts ?s = timeouts s"
      by simp_all
    have p: "pending_timeout ?s = pending_timeout s" unfolding pending_timeout_def e ..
    from e Cons.prems(2) have n: "None \<notin> set (output_queue ?s)" by simp
    from Cons.IH [OF d n] e p show ?thesis by simp
  qed
qed

lemma steps_needed_zero: "steps_needed s = 0 \<Longrightarrow> c_pc s = CDone"
  by (auto simp: steps_needed_def split: c_state.splits if_splits)

lemma dead_consumer_ends:
  "\<not> alive s \<Longrightarrow> None \<notin> set (output_queue s) \<Longrightarrow>
   steps_needed s \<le> count_list sched Consumer \<Longrightarrow> c_pc (run sc sched s) = CDone"
proof (induction sched arbitrary: s)
  case Nil
  then show ?case by (simp add: steps_needed_zero)
next
  case (Cons a sched)
  let ?s = "step sc a s"
  have d: "\<not> alive ?s" by (rule dead_stays_dead [OF Cons.prems(1)])
  show ?case
  proof (cases "a = Consumer")
    case True
    then have st: "?s = consumer_step s" by (simp add: step_def)
    from dead_consumer_step [OF Cons.prems(1,2)] st
    have n: "None \<notin> set (output_queue ?s)"
      and m: "steps_needed ?s = steps_needed s - 1"
      by simp_all
    from m Cons.prems(3) True have "steps_needed ?s \<le> count_list sched Consumer" by simp
    from Cons.IH [OF d n this] show ?thesis by simp
  next
    case False
    from dead_step_other [OF Cons.prems(1) False, of sc]
    have e: "output_queue ?s = output_queue s" "c_pc ?s = c_pc s" by simp_all
    have m: "steps_needed ?s = steps_needed s" unfolding steps_needed_def e ..
    from e Cons.prems(2) have n: "None \<notin> set (output_queue ?s)" by simp
    from m Cons.prems(3) False have "steps_needed ?s \<le> count_list sched Consumer" by simp
    from Cons.IH [OF d n this] show ?thesis by simp
  qed
qed

lemma steps_needed_bound: "steps_needed s \<le> 2 * length (output_queue s) + 2"
  by (simp add: steps_needed_def split: c_state.splits)

lemma pending_timeout_bound: "pending_timeout s \<le> 1"
  by (simp add: pending_timeout_def)

lemma consumer_exit_exact:
  assumes "c_pc s \<noteq> CDone"
  shows "(c_pc (step sc a s) = CDone) =
         (a = Consumer \<and>
          ((c_pc s = CGet \<and> (\<exists>q. output_queue s = None # q))
           \<or> (c_pc s = CCheck \<and> \<not> alive s \<and> output_queue s = [])))"
proof (cases a)
  case Thread
  with assms show ?thesis
    by (auto simp: step_def thread_step_def
        split: list.splits t_action.splits prod.splits sum.splits)
next
  case Worker
  with assms show ?thesis
    by (auto simp: step_def worker_step_def
        split: w_state.splits sum.splits list.splits option.splits)
next
  case Consumer
  with assms show ?thesis
    by (auto simp: step_def consumer_step_def split: c_state.splits list.splits option.splits)
next
  case Kill
  with assms show ?thesis by (simp add: step_def)
qed

lemma done_stays_done: "c_pc s = CDone \<Longrightarrow> c_pc (run sc sched s) = CDone"
proof (induction sched arbitrary: s)
  case Nil
  then show ?case by simp
next
  case (Cons a sched)
  have "c_pc (step sc a s) = CDone"
    using Cons.prems
    by (cases a)
      (auto simp: step_def thread_step_def worker_step_def consumer_step_def
        split: list.splits t_action.splits w_state.splits sum.splits option.splits
          prod.splits)
  from Cons.IH [OF this] show ?case by simp
qed

text \<open>
  C3. A step ends the loop of \<open>event_generator\<close> exactly when it is a step of the
  consumer that reads the sentinel, or a step of the consumer that finds the worker
  process not alive and the output queue empty; once ended the loop stays ended. When
  the worker process is dead and no sentinel is on the output queue, the loop ends as
  soon as the consumer has taken two steps for every queued chunk and two more, and from
  the death on at most one of its reads times out: measured in poll intervals, the only
  waiting the loop does, it ends within one poll interval of the death.
\<close>

theorem consumer_loop_termination:
  "(c_pc s \<noteq> CDone \<longrightarrow>
      (c_pc (step sc a s) = CDone) =
        (a = Consumer \<and>
         ((c_pc s = CGet \<and> (\<exists>q. output_queue s = None # q))
          \<or> (c_pc s = CCheck \<and> \<not> alive s \<and> output_queue s = []))))
   \<and> (c_pc s = CDone \<longrightarrow> c_pc (run sc sched s) = CDone)
   \<and> (\<not> alive s \<and> None \<notin> set (output_queue s) \<longrightarrow>
        timeouts (run sc sched s) \<le> timeouts s + 1)
   \<and> (\<not> alive s \<and> None \<notin> set (output_queue s)
        \<and> 2 * length (output_queue s) + 2 \<le> count_list sched Consumer \<longrightarrow>
        c_pc (run sc sched s) = CDone)"
proof -
  have t: "\<not> alive s \<and> None \<notin> set (output_queue s) \<longrightarrow>
      timeouts (run sc sched s) \<le> timeouts s + 1"
  proof
    assume h: "\<not> alive s \<and> None \<notin> set (output_queue s)"
    then have "timeouts (run sc sched s) + pending_timeout (run sc sched s)
        \<le> timeouts s + pending_timeout s"
      by (simp add: dead_timeouts_bounded)
    with pending_timeout_bound [of s] show "timeouts (run sc sched s) \<le> timeouts s + 1"
      by simp
  qed
  have e: "\<not> alive s \<and> None \<notin> set (output_queue s)
        \<and> 2 * length (output_queue s) + 2 \<le> count_list sched Consumer \<longrightarrow>
        c_pc (run sc sched s) = CDone"
  proof
    assume h: "\<not> alive s \<and> None \<notin> set (output_queue s)
        \<and> 2 * length (output_queue s) + 2 \<le> count_list sched Consumer"
    with steps_needed_bound [of s] have "steps_needed s \<le> count_list sched Consumer" by simp
    with h show "c_pc (run sc sched s) = CDone" by (simp add: dead_consumer_ends)
  qed
  from consumer_exit_exact [of s sc a] done_stays_done [of s sc sched] t e
  show ?thesis by blast
qed

theorem consumer_loop_termination_witness:
  "c_pc killed_after_one_chunk \<noteq> CDone
   \<and> c_pc (step demo_scenario Consumer killed_after_one_chunk) \<noteq> CDone
   \<and> \<not> alive killed_after_one_chunk
   \<and> None \<notin> set (output_queue killed_after_one_chunk)
   \<and> 2 * length (output_queue killed_after_one_chunk) + 2
        \<le> count_list [Consumer, Consumer, Consumer, Consumer] Consumer
   \<and> c_pc (run demo_scenario [Consumer, Consumer, Consumer, Consumer] killed_after_one_chunk)
        = CDone
   \<and> timeouts (run demo_scenario [Consumer, Consumer, Consumer, Consumer] killed_after_one_chunk)
        \<le> timeouts killed_after_one_chunk + 1
   \<and> c_pc (run demo_scenario [Consumer, Kill]
              (run demo_scenario [Consumer, Consumer, Consumer, Consumer] killed_after_one_chunk))
        = CDone"
proof -
  let ?k = killed_after_one_chunk
  let ?cs = "[Consumer, Consumer, Consumer, Consumer]"
  note f = killed_after_one_chunk_fields
  have h1: "c_pc ?k \<noteq> CDone" by (simp add: f)
  have h2: "\<not> alive ?k" by (simp add: alive_def f)
  have h3: "None \<notin> set (output_queue ?k)" by (simp add: f)
  have h4: "2 * length (output_queue ?k) + 2 \<le> count_list ?cs Consumer" by (simp add: f)
  have h5: "\<not> (c_pc ?k = CGet \<and> (\<exists>q. output_queue ?k = None # q))
            \<and> \<not> (c_pc ?k = CCheck \<and> \<not> alive ?k \<and> output_queue ?k = [])"
    by (simp add: f)
  from consumer_loop_termination [of ?k demo_scenario Consumer ?cs] h1 h2 h3 h4 h5
  have r: "c_pc (step demo_scenario Consumer ?k) \<noteq> CDone"
    "c_pc (run demo_scenario ?cs ?k) = CDone"
    "timeouts (run demo_scenario ?cs ?k) \<le> timeouts ?k + 1"
    by blast+
  from consumer_loop_termination
    [of "run demo_scenario ?cs ?k" demo_scenario Consumer "[Consumer, Kill]"] r(2)
  have "c_pc (run demo_scenario [Consumer, Kill] (run demo_scenario ?cs ?k)) = CDone"
    by blast
  with h1 h2 h3 h4 r show ?thesis by blast
qed

section \<open>The invariants hold in every reachable state\<close>

lemma puts_of_append [simp]: "puts_of (xs @ ys) = puts_of xs @ puts_of ys"
  by (induction xs rule: puts_of.induct) simp_all

lemma exec_store_append [simp]: "exec_store (xs @ ys) db = exec_store ys (exec_store xs db)"
  by (induction xs db rule: exec_store.induct) simp_all

lemma fragments_of_append [simp]:
  "fragments_of (xs @ ys) = fragments_of xs @ fragments_of ys"
  by (induction xs rule: fragments_of.induct) simp_all

lemma invariant_init: "invariant sc db0 (init db0)"
  by (simp add: invariant_def inv_thread_def inv_worker_def inv_consumer_def init_def)

text \<open>
  \<open>add_message\<close> raises only the ValueError of its first statement, with the store
  untouched: once the insert has passed, the count and the update of the title run
  on the same session id and on a title cut from the content, and cannot fail.
\<close>

lemma sql_insert_detail_raises:
  assumes "sql_insert_detail db sid rl cnt rsn = Inl e" and "\<forall>m. e \<noteq> Psycopg2Error m"
  shows "has_nul sid \<or> has_nul rl \<or> has_nul cnt \<or> has_nul rsn"
  using assms
  by (auto simp: sql_insert_detail_def execute_check_def split: option.splits if_splits)

lemma add_message_after_insert:
  assumes "connection db"
    and "sql_insert_detail db sid rl cnt rsn = Inr db1"
    and "rsn = (case r of None \<Rightarrow> [] | Some x \<Rightarrow> x)"
  shows "\<exists>db'. add_message db sid rl cnt r = (Inr True, db')"
proof -
  note f = insert_detail_facts [OF assms(2)]
  from f(7,6) obtain n where n: "sql_count_details db1 sid = Inr (Suc n)" by auto
  from f(2) obtain k where k: "uuid_canon db1 sid = Some k"
    "k \<in> set (map conv_session_id (conversations db1))" by blast
  have c1: "connection db1" using f(5) assms(1) by simp
  have nn: "\<not> has_nul (if 255 < length (spec_title cnt)
                          then take 252 (spec_title cnt) @ ''...'' else spec_title cnt)"
    using spec_title_fits [of cnt] spec_title_no_nul [OF f(4)] by simp
  from update_conversation_title_in_known [OF c1 f(1) k f(3) nn, of db]
  obtain db2 where "update_conversation_title_in db db1 sid (spec_title cnt) = (Inr True, db2)"
    by auto
  with assms n show ?thesis
    by (simp add: add_message_def Let_def code_title_is_spec_title)
qed

lemma add_message_raises:
  assumes "add_message db sid rl cnt r = (Inl e, db')"
  shows "db' = db" and "nul_action (AddMessage sid rl cnt r)"
proof -
  let ?rsn = "case r of None \<Rightarrow> [] | Some x \<Rightarrow> x"
  from assms have c: "connection db" by (auto simp: add_message_def split: if_splits)
  have "\<exists>x. sql_insert_detail db sid rl cnt ?rsn = Inl x \<and> (\<forall>m. x \<noteq> Psycopg2Error m)
          \<and> db' = db"
  proof (cases "sql_insert_detail db sid rl cnt ?rsn")
    case (Inl x)
    with assms c show ?thesis
      by (cases x) (auto simp: add_message_def Let_def)
  next
    case (Inr db1)
    from add_message_after_insert [OF c Inr refl] assms show ?thesis by auto
  qed
  then obtain x where x: "sql_insert_detail db sid rl cnt ?rsn = Inl x"
    "\<forall>m. x \<noteq> Psycopg2Error m" and d: "db' = db" by blast
  show "db' = db" by (rule d)
  from sql_insert_detail_raises [OF x] show "nul_action (AddMessage sid rl cnt r)" by simp
qed

lemma inv_thread_thread_step:
  assumes "inv_thread sc db0 s"
  shows "inv_thread sc db0 (thread_step s)"
proof (cases "\<not> t_started s \<or> killed s")
  case True
  with assms show ?thesis by (simp add: thread_step_def)
next
  case False
  then have st: "t_started s" "\<not> killed s" by simp_all
  from assms st obtain b undone where b: "worker_start sc = Inr b"
    and prog: "t_done s @ t_todo s @ undone = run_generate (sc_engine sc) b"
    and un: "undone = [] \<or> (t_todo s = [] \<and> nul_action (hd undone))"
    and sto: "store s = exec_store (t_done s) db0"
    and q: "taken s @ stream_queue s = puts_of (t_done s)"
    by (auto simp: inv_thread_def)
  show ?thesis
  proof (cases "t_todo s")
    case Nil
    with assms st show ?thesis by (simp add: thread_step_def)
  next
    case (Cons act rest)
    with un have u0: "undone = []" by auto
    show ?thesis
    proof (cases act)
      case (Put item)
      with Cons st have ts: "thread_step s =
          s\<lparr>stream_queue := stream_queue s @ [item], t_todo := rest,
            t_done := t_done s @ [Put item]\<rparr>"
        by (simp add: thread_step_def)
      from prog Cons Put u0
      have "(t_done s @ [Put item]) @ rest @ [] = run_generate (sc_engine sc) b" by simp
      with b st sto q show ?thesis
        unfolding ts inv_thread_def by (simp del: append_assoc) (metis append_Nil2 append.assoc)
    next
      case (AddMessage sid rl cnt rsn)
      show ?thesis
      proof (cases "add_message (store s) sid rl cnt rsn")
        case (Pair res db')
        show ?thesis
        proof (cases res)
          case (Inl e)
          with Pair add_message_raises [of "store s" sid rl cnt rsn e db']
          have d: "db' = store s" and nu: "nul_action (AddMessage sid rl cnt rsn)" by simp_all
          from Cons AddMessage st Pair Inl have ts: "thread_step s = s\<lparr>store := db', t_todo := []\<rparr>"
            by (simp add: thread_step_def)
          from prog Cons AddMessage u0
          have "t_done s @ [] @ (AddMessage sid rl cnt rsn # rest) = run_generate (sc_engine sc) b"
            by simp
          moreover have "nul_action (hd (AddMessage sid rl cnt rsn # rest))" using nu by simp
          ultimately have "\<exists>b undone. worker_start sc = Inr b
                \<and> t_done s @ [] @ undone = run_generate (sc_engine sc) b
                \<and> (undone = [] \<or> ([] = ([]::t_action list) \<and> nul_action (hd undone)))"
            using b by blast
          with st sto q d show ?thesis
            unfolding ts inv_thread_def by simp
        next
          case (Inr ok)
          from Cons AddMessage st Pair Inr have ts: "thread_step s =
              s\<lparr>store := db', t_todo := rest,
                t_done := t_done s @ [AddMessage sid rl cnt rsn]\<rparr>"
            by (simp add: thread_step_def)
          from prog Cons AddMessage u0
          have "(t_done s @ [AddMessage sid rl cnt rsn]) @ rest @ [] = run_generate (sc_engine sc) b"
            by simp
          then have "\<exists>b undone. worker_start sc = Inr b
                \<and> (t_done s @ [AddMessage sid rl cnt rsn]) @ rest @ undone
                    = run_generate (sc_engine sc) b
                \<and> (undone = [] \<or> (rest = [] \<and> nul_action (hd undone)))"
            using b by blast
          moreover have "db' = exec_store (t_done s @ [AddMessage sid rl cnt rsn]) db0"
            using Pair sto by simp
          ultimately show ?thesis
            using st q unfolding ts inv_thread_def by simp
        qed
      qed
    qed
  qed
qed

lemma inv_worker_thread_step:
  assumes "inv_worker sc s"
  shows "inv_worker sc (thread_step s)"
proof -
  have same: "w_pc (thread_step s) = w_pc s" "t_started (thread_step s) = t_started s"
    "taken (thread_step s) = taken s" "produced (thread_step s) = produced s"
    by (auto simp: thread_step_def split: list.splits t_action.splits prod.splits sum.splits)
  from assms show ?thesis unfolding inv_worker_def same .
qed

lemma inv_consumer_thread_step:
  assumes "inv_consumer s"
  shows "inv_consumer (thread_step s)"
proof -
  have same: "received (thread_step s) = received s" "output_queue (thread_step s) = output_queue s"
    "produced (thread_step s) = produced s" "yielded (thread_step s) = yielded s"
    "c_pc (thread_step s) = c_pc s"
    by (auto simp: thread_step_def split: list.splits t_action.splits prod.splits sum.splits)
  have dead: "\<not> alive s \<Longrightarrow> \<not> alive (thread_step s)"
    by (simp add: thread_step_dead)
  from assms dead show ?thesis
    unfolding inv_consumer_def same by blast
qed

lemma inv_thread_worker_step:
  assumes "inv_thread sc db0 s" and "inv_worker sc s"
  shows "inv_thread sc db0 (worker_step sc s)"
proof (cases "killed s")
  case True
  with assms show ?thesis by (simp add: worker_step_def)
next
  case False
  show ?thesis
  proof (cases "w_pc s")
    case WStart
    with assms False show ?thesis
      by (auto simp: worker_step_def inv_thread_def inv_worker_def split: sum.splits)
  next
    case WStreaming
    with assms False show ?thesis
      by (auto simp: worker_step_def inv_thread_def inv_worker_def
          split: list.splits option.splits)
  qed (use assms False in \<open>auto simp: worker_step_def inv_thread_def\<close>)
qed

lemma frame_item_Some [simp]: "frame_item (Some token) = Some (generate_stream_yield token)"
  by (simp add: frame_item_def)

lemma inv_worker_worker_step:
  assumes "inv_thread sc db0 s" and "inv_worker sc s"
  shows "inv_worker sc (worker_step sc s)"
proof (cases "killed s")
  case True
  with assms show ?thesis by (simp add: worker_step_def)
next
  case False
  show ?thesis
  proof (cases "w_pc s")
    case WStart
    with assms False show ?thesis
      by (auto simp: worker_step_def inv_worker_def inv_thread_def split: sum.splits)
  next
    case WStreaming
    with assms False show ?thesis
      by (auto simp: worker_step_def inv_worker_def split: list.splits option.splits)
  next
    case (WPut chunk)
    with assms False show ?thesis
      by (auto simp: worker_step_def inv_worker_def)
  next
    case WSignalDone
    with assms False show ?thesis
      by (auto simp: worker_step_def inv_worker_def)
  next
    case (WExcept e)
    with assms False show ?thesis
      by (auto simp: worker_step_def inv_worker_def)
  next
    case WExceptDone
    with assms False show ?thesis
      by (auto simp: worker_step_def inv_worker_def)
  next
    case WExited
    with assms False show ?thesis
      by (auto simp: worker_step_def inv_worker_def)
  qed
qed

lemma inv_consumer_worker_step:
  assumes "inv_consumer s"
  shows "inv_consumer (worker_step sc s)"
proof -
  have rec: "received (worker_step sc s) = received s" "yielded (worker_step sc s) = yielded s"
    "c_pc (worker_step sc s) = c_pc s"
    by (auto simp: worker_step_def split: w_state.splits sum.splits list.splits option.splits)
  have q: "\<exists>xs. output_queue (worker_step sc s) = output_queue s @ xs
               \<and> produced (worker_step sc s) = produced s @ xs"
    by (auto simp: worker_step_def split: w_state.splits sum.splits list.splits option.splits)
  have dead: "\<not> alive s \<Longrightarrow> \<not> alive (worker_step sc s)"
    by (simp add: worker_step_dead)
  from assms q dead show ?thesis
    unfolding inv_consumer_def rec by auto
qed

lemma inv_thread_consumer_step:
  assumes "inv_thread sc db0 s"
  shows "inv_thread sc db0 (consumer_step s)"
  using assms
  by (auto simp: consumer_step_def inv_thread_def split: c_state.splits list.splits option.splits)

lemma inv_worker_consumer_step:
  assumes "inv_worker sc s"
  shows "inv_worker sc (consumer_step s)"
  using assms
  by (auto simp: consumer_step_def inv_worker_def
      split: c_state.splits list.splits option.splits w_state.splits)

lemma inv_consumer_consumer_step:
  assumes "inv_consumer s"
  shows "inv_consumer (consumer_step s)"
proof -
  have a: "alive (consumer_step s) = alive s" by simp
  show ?thesis
  proof (cases "c_pc s")
    case CCheck
    with assms show ?thesis
      unfolding inv_consumer_def a by (auto simp: consumer_step_def)
  next
    case CGet
    with assms show ?thesis
      unfolding inv_consumer_def a
      by (auto simp: consumer_step_def split: list.splits option.splits)
  next
    case CDone
    with assms show ?thesis by (simp add: consumer_step_def)
  qed
qed

lemma invariant_kill:
  assumes "invariant sc db0 s"
  shows "invariant sc db0 (s\<lparr>killed := True\<rparr>)"
  using assms
  by (auto simp: invariant_def inv_thread_def inv_worker_def inv_consumer_def alive_def
      split: w_state.splits)

lemma invariant_step:
  assumes "invariant sc db0 s"
  shows "invariant sc db0 (step sc a s)"
proof (cases a)
  case Thread
  with assms show ?thesis
    by (simp add: step_def invariant_def inv_thread_thread_step inv_worker_thread_step
        inv_consumer_thread_step)
next
  case Worker
  from assms have i: "inv_thread sc db0 s" "inv_worker sc s" "inv_consumer s"
    by (simp_all add: invariant_def)
  from inv_thread_worker_step [OF i(1,2)] inv_worker_worker_step [OF i(1,2)]
    inv_consumer_worker_step [OF i(3)] Worker
  show ?thesis by (simp add: step_def invariant_def)
next
  case Consumer
  with assms show ?thesis
    by (simp add: step_def invariant_def inv_thread_consumer_step inv_worker_consumer_step
        inv_consumer_consumer_step)
next
  case Kill
  with invariant_kill [OF assms] show ?thesis by (simp add: step_def)
qed

lemma invariant_run:
  "invariant sc db0 s \<Longrightarrow> invariant sc db0 (run sc sched s)"
  by (induction sched arbitrary: s) (simp_all add: invariant_step)

lemma invariant_reachable: "invariant sc db0 (run sc sched (init db0))"
  by (rule invariant_run [OF invariant_init])

section \<open>Order on the streaming channel\<close>

lemma invariant_after: "invariant sc db0 (after sc db0 sched)"
  by (simp add: after_def invariant_reachable)

lemma puts_of_map_Put [simp]: "puts_of (map Put xs) = xs"
  by (induction xs) simp_all

lemma puts_of_run_generate:
  "puts_of (run_generate eng b) =
     concat (map (\<lambda>(text, stream_end). on_finalized_text text stream_end) (streamed eng))"
  by (simp add: run_generate_def split: sum.splits prod.splits)

lemma upto_sentinel_append:
  "None \<notin> set xs \<Longrightarrow> upto_sentinel (xs @ ys) = xs @ upto_sentinel ys"
  by (induction xs rule: upto_sentinel.induct) simp_all

lemma frame_item_None [simp]: "frame_item None = None"
  by (simp add: frame_item_def)

lemma frame_item_eq_None [simp]: "(frame_item x = None) = (x = None)"
  by (cases x) simp_all

lemma None_in_framed [simp]: "(None \<in> frame_item ` A) = (None \<in> A)"
proof
  assume "None \<in> frame_item ` A"
  then obtain x where "x \<in> A" "frame_item x = None" by (metis imageE)
  then show "None \<in> A" by simp
next
  assume "None \<in> A"
  then have "frame_item None \<in> frame_item ` A" by (rule imageI)
  then show "None \<in> frame_item ` A" by simp
qed

lemma no_None_nth: "None \<notin> set xs \<Longrightarrow> i < length xs \<Longrightarrow> xs ! i \<noteq> None"
  using nth_mem by metis

lemma sentinel_last_append:
  assumes "None \<notin> set xs"
  shows "\<forall>i < length (xs @ [None]). (xs @ [None]) ! i = None \<longrightarrow> Suc i = length (xs @ [None])"
    and "\<forall>i < length xs. xs ! i = None \<longrightarrow> Suc i = length xs"
  using assms by (auto simp: nth_append no_None_nth split: if_splits)

lemma produced_sentinel_last:
  assumes "inv_worker sc s"
  shows "\<forall>i < length (produced s). produced s ! i = None \<longrightarrow> Suc i = length (produced s)"
proof (cases "w_pc s")
  case WExited
  show ?thesis
  proof (cases "t_started s")
    case True
    with assms WExited obtain tk where tk: "None \<notin> set tk"
      and p: "produced s = map frame_item tk @ [None]"
      by (auto simp: inv_worker_def)
    from tk have "None \<notin> set (map frame_item tk)" by simp
    from sentinel_last_append(1) [OF this] show ?thesis by (simp add: p)
  next
    case False
    with assms WExited obtain e where "produced s = [Some (error_fragment e), None]"
      by (auto simp: inv_worker_def)
    then show ?thesis by (auto simp: nth_Cons')
  qed
next
  case WStart
  with assms show ?thesis by (simp add: inv_worker_def)
next
  case WStreaming
  with assms have "None \<notin> set (produced s)" by (simp add: inv_worker_def)
  from sentinel_last_append(2) [OF this] show ?thesis .
next
  case (WPut chunk)
  with assms have "None \<notin> set (produced s)" by (auto simp: inv_worker_def)
  from sentinel_last_append(2) [OF this] show ?thesis .
next
  case WSignalDone
  with assms have "None \<notin> set (produced s)" by (auto simp: inv_worker_def)
  from sentinel_last_append(2) [OF this] show ?thesis .
next
  case (WExcept e)
  with assms show ?thesis by (simp add: inv_worker_def)
next
  case WExceptDone
  with assms show ?thesis by (auto simp: inv_worker_def)
qed

lemma produced_prefix_started:
  assumes "inv_thread sc db0 s" and "inv_worker sc s" and "t_started s"
  shows "\<exists>b. worker_start sc = Inr b
           \<and> prefix (produced s)
                (map frame_item (upto_sentinel (puts_of (run_generate (sc_engine sc) b))))"
proof -
  from assms(1,3) obtain b undone where b: "worker_start sc = Inr b"
    and prog: "t_done s @ t_todo s @ undone = run_generate (sc_engine sc) b"
    and q: "taken s @ stream_queue s = puts_of (t_done s)"
    by (auto simp: inv_thread_def)
  let ?P = "puts_of (run_generate (sc_engine sc) b)"
  from prog have "?P = puts_of (t_done s) @ puts_of (t_todo s @ undone)"
    by (metis puts_of_append)
  with q have P: "?P = taken s @ (stream_queue s @ puts_of (t_todo s @ undone))"
    by simp
  have "prefix (produced s) (map frame_item (upto_sentinel ?P))"
  proof (cases "w_pc s")
    case WStreaming
    with assms(2) have n: "None \<notin> set (taken s)" and p: "produced s = map frame_item (taken s)"
      by (simp_all add: inv_worker_def)
    show ?thesis unfolding P by (simp add: upto_sentinel_append [OF n] p)
  next
    case (WPut chunk)
    with assms(2) obtain tk token where t: "taken s = tk @ [Some token]"
      and n: "None \<notin> set tk" and p: "produced s = map frame_item tk"
      by (auto simp: inv_worker_def)
    show ?thesis unfolding P t by (simp add: upto_sentinel_append [OF n] p)
  next
    case WSignalDone
    with assms(2) obtain tk where t: "taken s = tk @ [None]"
      and n: "None \<notin> set tk" and p: "produced s = map frame_item tk"
      by (auto simp: inv_worker_def)
    show ?thesis unfolding P t by (simp add: upto_sentinel_append [OF n] p)
  next
    case WExited
    with assms(2,3) obtain tk where t: "taken s = tk @ [None]"
      and n: "None \<notin> set tk" and p: "produced s = map frame_item tk @ [None]"
      by (auto simp: inv_worker_def)
    show ?thesis unfolding P t by (simp add: upto_sentinel_append [OF n] p)
  qed (use assms(2,3) in \<open>auto simp: inv_worker_def\<close>)
  with b show ?thesis by blast
qed

lemma produced_prefix_not_started:
  assumes "inv_worker sc s" and "\<not> t_started s"
  shows "produced s = []
       \<or> (\<exists>e. worker_start sc = Inl e \<and> prefix (produced s) [Some (error_fragment e), None])"
  using assms by (cases "w_pc s") (auto simp: inv_worker_def)

lemma received_all_at_sentinel:
  assumes "received s @ output_queue s = produced s"
    and "\<forall>i < length (produced s). produced s ! i = None \<longrightarrow> Suc i = length (produced s)"
    and "None \<in> set (received s)"
  shows "output_queue s = []"
proof (rule ccontr)
  assume ne: "output_queue s \<noteq> []"
  from assms(3) obtain i where i: "i < length (received s)" "received s ! i = None"
    by (auto simp: in_set_conv_nth)
  from i assms(1) have "i < length (produced s)" "produced s ! i = None"
    by (auto simp: nth_append simp flip: assms(1))
  with assms(2) have "Suc i = length (produced s)" by blast
  with i(1) ne assms(1) show False
    by (metis Suc_leI append_Nil2 append_eq_append_conv length_append le_add1 le_antisym
        add_diff_cancel_left' length_0_conv)
qed

text \<open>
  C4. In every state a stream request can reach, what the event generator has received,
  followed by what is still on the output queue, is exactly what \<open>worker_process\<close> has
  put on it, in the order of the puts, and the chunks yielded to the client are the
  chunks received, in that order. A sentinel among the items put is the last of them,
  on the path of success and on the path of the handler alike, and when the event
  generator has received it nothing is left on the queue. On the path of success the
  items put are, in order, the frames of the items that the calls of
  \<open>on_finalized_text\<close> put on the stream queue, up to the first sentinel; on the path
  of the handler they are the error fragment and the sentinel.
\<close>

theorem streaming_channel_order:
  fixes sc :: scenario and db0 :: conversation_db and sched :: "actor list"
  defines "s \<equiv> after sc db0 sched"
  shows "received s @ output_queue s = produced s
       \<and> yielded s = map event_generator_response (fragments_of (received s))
       \<and> (\<forall>i < length (produced s). produced s ! i = None \<longrightarrow> Suc i = length (produced s))
       \<and> (None \<in> set (received s) \<longrightarrow> output_queue s = [] \<and> received s = produced s)
       \<and> (t_started s \<longrightarrow>
            prefix (produced s)
              (map frame_item
                (upto_sentinel
                  (concat (map (\<lambda>(text, stream_end). on_finalized_text text stream_end)
                             (streamed (sc_engine sc)))))))
       \<and> (\<not> t_started s \<longrightarrow>
            produced s = []
            \<or> (\<exists>e. worker_start sc = Inl e
                  \<and> prefix (produced s) [Some (error_fragment e), None]))"
proof -
  have i: "inv_thread sc db0 s" "inv_worker sc s" "inv_consumer s"
    using invariant_after [of sc db0 sched] by (simp_all add: invariant_def s_def)
  from i(3) have fifo: "received s @ output_queue s = produced s"
    and y: "yielded s = map event_generator_response (fragments_of (received s))"
    by (simp_all add: inv_consumer_def)
  note last = produced_sentinel_last [OF i(2)]
  have all: "None \<in> set (received s) \<longrightarrow> output_queue s = [] \<and> received s = produced s"
  proof
    assume "None \<in> set (received s)"
    from received_all_at_sentinel [OF fifo last this] fifo
    show "output_queue s = [] \<and> received s = produced s" by simp
  qed
  have st: "t_started s \<longrightarrow>
      prefix (produced s)
        (map frame_item
          (upto_sentinel
            (concat (map (\<lambda>(text, stream_end). on_finalized_text text stream_end)
                       (streamed (sc_engine sc))))))"
    using produced_prefix_started [OF i(1,2)] by (auto simp: puts_of_run_generate)
  have ns: "\<not> t_started s \<longrightarrow>
      produced s = []
      \<or> (\<exists>e. worker_start sc = Inl e \<and> prefix (produced s) [Some (error_fragment e), None])"
    using produced_prefix_not_started [OF i(2)] by blast
  from fifo y last all st ns show ?thesis by blast
qed

lemma demo_full_fields:
  "t_started (after demo_scenario titled_db full_schedule)"
  "produced (after demo_scenario titled_db full_schedule) = [Some (generate_stream_yield ''4''), None]"
  "received (after demo_scenario titled_db full_schedule) = [Some (generate_stream_yield ''4''), None]"
  "output_queue (after demo_scenario titled_db full_schedule) = []"
  "yielded (after demo_scenario titled_db full_schedule) =
     [event_generator_response (generate_stream_yield ''4'')]"
  "c_pc (after demo_scenario titled_db full_schedule) = CDone"
  by (simp_all add: after_def full_schedule_def step_defs demo_worker_start demo_run_generate)

theorem streaming_channel_order_witness:
  "t_started (after demo_scenario titled_db full_schedule)
   \<and> None \<in> set (received (after demo_scenario titled_db full_schedule))
   \<and> received (after demo_scenario titled_db full_schedule) =
       [Some (generate_stream_yield ''4''), None]
   \<and> produced (after demo_scenario titled_db full_schedule) =
       received (after demo_scenario titled_db full_schedule)
   \<and> output_queue (after demo_scenario titled_db full_schedule) = []
   \<and> yielded (after demo_scenario titled_db full_schedule) =
       [event_generator_response (generate_stream_yield ''4'')]
   \<and> prefix (produced (after demo_scenario titled_db full_schedule))
       (map frame_item (upto_sentinel (on_finalized_text ''4'' True)))
   \<and> \<not> t_started (after demo_scenario titled_db [])
   \<and> produced (after demo_scenario titled_db []) = []"
proof -
  let ?s = "after demo_scenario titled_db full_schedule"
  note f = demo_full_fields
  have h1: "t_started ?s" by (rule f(1))
  have h2: "None \<in> set (received ?s)" by (simp add: f)
  have h3: "\<not> t_started (after demo_scenario titled_db [])"
    by (simp add: after_def init_def)
  have st: "streamed demo_engine = [(''4'', True)]"
    by (simp add: demo_engine_def)
  from streaming_channel_order [of demo_scenario titled_db full_schedule] h1 h2
  have r: "output_queue ?s = []" "received ?s = produced ?s"
    "yielded ?s = map event_generator_response (fragments_of (received ?s))"
    "prefix (produced ?s) (map frame_item (upto_sentinel (on_finalized_text ''4'' True)))"
    by (simp_all add: st)
  from streaming_channel_order [of demo_scenario titled_db "[]"] h3
  have "produced (after demo_scenario titled_db []) = []
      \<or> (\<exists>e. worker_start demo_scenario = Inl e
            \<and> prefix (produced (after demo_scenario titled_db [])) [Some (error_fragment e), None])"
    by blast
  then have p0: "produced (after demo_scenario titled_db []) = []"
    by (auto simp: demo_worker_start)
  from r(3) have y: "yielded ?s = [event_generator_response (generate_stream_yield ''4'')]"
    by (simp add: f(3))
  from h1 h2 h3 r p0 y f(3) show ?thesis by simp
qed

section \<open>A generation that raises\<close>

lemma killed_run: "Kill \<notin> set sched \<Longrightarrow> killed (run sc sched s) = killed s"
proof (induction sched arbitrary: s)
  case Nil
  then show ?case by simp
next
  case (Cons a sched)
  from Cons.prems have a: "a \<noteq> Kill" and r: "Kill \<notin> set sched" by auto
  have "killed (step sc a s) = killed s"
    using a
    by (cases a)
      (auto simp: step_def thread_step_def worker_step_def consumer_step_def
        split: list.splits t_action.splits w_state.splits sum.splits option.splits
          c_state.splits prod.splits)
  with Cons.IH [OF r, of "step sc a s"] show ?case by simp
qed

lemma no_sentinel_streamed:
  assumes "\<forall>(text, stream_end) \<in> set calls. \<not> stream_end"
  shows "None \<notin> set (concat (map (\<lambda>(text, stream_end). on_finalized_text text stream_end) calls))"
  using assms by (induction calls) (auto simp: on_finalized_text_def)

lemma exec_store_only_puts:
  "\<forall>a \<in> set as. \<exists>item. a = Put item \<Longrightarrow> exec_store as db = db"
  by (induction as db rule: exec_store.induct) auto

lemma run_generate_raises:
  "generated eng = Inl e \<Longrightarrow> \<forall>a \<in> set (run_generate eng b). \<exists>item. a = Put item"
  by (auto simp: run_generate_def)

text \<open>
  C6 where generation raises. The exception is raised in the thread of
  \<open>run_generate\<close>, which ends; nothing carries it to \<open>worker_process\<close>. If the model
  loaded and \<open>run_generate\<close> raises before the streamer has made its final call, then in
  every state the request can reach without a kill from outside: the handler of
  \<open>worker_process\<close> has not been entered, no sentinel has been put on the output queue,
  the worker has not left \<open>worker_process\<close> and its process is alive, the loop of
  \<open>event_generator\<close> has not ended, and the store is as it was. The claim asks for one
  error fragment, the sentinel and the end of the worker.
\<close>

theorem generation_failure_hangs:
  fixes sc :: scenario and db0 :: conversation_db and sched :: "actor list"
  defines "s \<equiv> after sc db0 sched"
  assumes "worker_start sc = Inr b"
    and "generated (sc_engine sc) = Inl e"
    and "\<forall>(text, stream_end) \<in> set (streamed (sc_engine sc)). \<not> stream_end"
    and "Kill \<notin> set sched"
  shows "(\<forall>e'. w_pc s \<noteq> WExcept e') \<and> w_pc s \<noteq> WExceptDone
       \<and> w_pc s \<noteq> WSignalDone \<and> w_pc s \<noteq> WExited
       \<and> None \<notin> set (produced s)
       \<and> prefix (produced s)
           (map frame_item
             (concat (map (\<lambda>(text, stream_end). on_finalized_text text stream_end)
                        (streamed (sc_engine sc)))))
       \<and> alive s \<and> c_pc s \<noteq> CDone \<and> store s = db0"
proof -
  let ?P = "concat (map (\<lambda>(text, stream_end). on_finalized_text text stream_end)
                      (streamed (sc_engine sc)))"
  have i: "inv_thread sc db0 s" "inv_worker sc s" "inv_consumer s"
    using invariant_after [of sc db0 sched] by (simp_all add: invariant_def s_def)
  have nk: "\<not> killed s"
    using killed_run [OF assms(5), of sc "init db0"] by (simp add: s_def after_def init_def)
  have nP: "None \<notin> set ?P" by (rule no_sentinel_streamed [OF assms(4)])
  have nt: "None \<notin> set (taken s)"
  proof (cases "t_started s")
    case True
    with i(1) assms(2) obtain undone
      where prog: "t_done s @ t_todo s @ undone = run_generate (sc_engine sc) b"
      and q: "taken s @ stream_queue s = puts_of (t_done s)"
      by (auto simp: inv_thread_def)
    from prog have "puts_of (t_done s) @ puts_of (t_todo s @ undone) = ?P"
      by (metis puts_of_append puts_of_run_generate)
    with q nP show ?thesis by (metis Un_iff set_append)
  next
    case False
    with i(1) have "taken s @ stream_queue s = []" by (simp add: inv_thread_def)
    then show ?thesis by simp
  qed
  have pc: "(\<forall>e'. w_pc s \<noteq> WExcept e') \<and> w_pc s \<noteq> WExceptDone
       \<and> w_pc s \<noteq> WSignalDone \<and> w_pc s \<noteq> WExited"
    using i(2) nt assms(2) by (cases "w_pc s") (auto simp: inv_worker_def split: if_splits)
  have np: "None \<notin> set (produced s)"
    using i(2) nt pc by (cases "w_pc s") (auto simp: inv_worker_def)
  have pre: "prefix (produced s) (map frame_item ?P)"
  proof (cases "t_started s")
    case True
    from produced_prefix_started [OF i(1,2) True] assms(2)
    have "prefix (produced s) (map frame_item (upto_sentinel ?P))"
      by (simp add: puts_of_run_generate)
    moreover from upto_sentinel_append [OF nP, of "[]"] have "upto_sentinel ?P = ?P" by simp
    ultimately show ?thesis by simp
  next
    case False
    with produced_prefix_not_started [OF i(2)] assms(2) show ?thesis by auto
  qed
  have al: "alive s" using nk pc by (simp add: alive_def)
  have nr: "None \<notin> set (received s)"
    using i(3) np by (metis Un_iff inv_consumer_def set_append)
  have cd: "c_pc s \<noteq> CDone" using i(3) nr al by (auto simp: inv_consumer_def)
  have st: "store s = db0"
  proof (cases "t_started s")
    case True
    with i(1) assms(2) obtain undone
      where prog: "t_done s @ t_todo s @ undone = run_generate (sc_engine sc) b"
      and s: "store s = exec_store (t_done s) db0"
      by (auto simp: inv_thread_def)
    from run_generate_raises [OF assms(3), of b] prog
    have "\<forall>a \<in> set (t_done s). \<exists>item. a = Put item"
      by (metis Un_iff set_append)
    from exec_store_only_puts [OF this] s show ?thesis by simp
  next
    case False
    with i(1) show ?thesis by (simp add: inv_thread_def)
  qed
  from pc np pre al cd st show ?thesis by blast
qed

lemma failing_worker_start:
  "worker_start failing_scenario =
     Inr \<lparr>model_loaded = True, history = [], user_input = ''2+2?'',
          messages = [(''user'', ''2+2?'')], bot_session_id = demo_sid\<rparr>"
  by (simp add: demo_defs Let_def)

theorem generation_failure_hangs_witness:
  "worker_start failing_scenario =
     Inr \<lparr>model_loaded = True, history = [], user_input = ''2+2?'',
          messages = [(''user'', ''2+2?'')], bot_session_id = demo_sid\<rparr>
   \<and> generated (sc_engine failing_scenario) = Inl (RuntimeError ''CUDA out of memory'')
   \<and> streamed (sc_engine failing_scenario) = []
   \<and> Kill \<notin> set [Worker, Thread, Worker, Consumer, Consumer, Consumer, Consumer]
   \<and> produced (after failing_scenario titled_db
        [Worker, Thread, Worker, Consumer, Consumer, Consumer, Consumer]) = []
   \<and> w_pc (after failing_scenario titled_db
        [Worker, Thread, Worker, Consumer, Consumer, Consumer, Consumer]) \<noteq> WExited
   \<and> alive (after failing_scenario titled_db
        [Worker, Thread, Worker, Consumer, Consumer, Consumer, Consumer])
   \<and> c_pc (after failing_scenario titled_db
        [Worker, Thread, Worker, Consumer, Consumer, Consumer, Consumer]) \<noteq> CDone
   \<and> store (after failing_scenario titled_db
        [Worker, Thread, Worker, Consumer, Consumer, Consumer, Consumer]) = titled_db"
proof -
  let ?sched = "[Worker, Thread, Worker, Consumer, Consumer, Consumer, Consumer]"
  have e: "sc_engine failing_scenario = failing_engine" by (simp add: failing_scenario_def)
  have h2: "generated (sc_engine failing_scenario) = Inl (RuntimeError ''CUDA out of memory'')"
    by (simp add: e failing_engine_def)
  have h3: "\<forall>(text, stream_end) \<in> set (streamed (sc_engine failing_scenario)). \<not> stream_end"
    by (simp add: e failing_engine_def)
  have h4: "Kill \<notin> set ?sched" by simp
  have st: "streamed (sc_engine failing_scenario) = []" by (simp add: e failing_engine_def)
  from generation_failure_hangs [OF failing_worker_start h2 h3 h4, of titled_db]
  have "w_pc (after failing_scenario titled_db ?sched) \<noteq> WExited"
    "prefix (produced (after failing_scenario titled_db ?sched)) []"
    "alive (after failing_scenario titled_db ?sched)"
    "c_pc (after failing_scenario titled_db ?sched) \<noteq> CDone"
    "store (after failing_scenario titled_db ?sched) = titled_db"
    by (simp_all add: st)
  with failing_worker_start h2 st h4 show ?thesis by simp
qed

text \<open>
  Where the model fails to load the handler does what C6 says: the worker puts the error
  fragment with the message of the exception, then the sentinel, and its process ends.
\<close>

lemma load_failure_reported:
  assumes "worker_start sc = Inl e"
  shows "produced (after sc db0 [Worker, Worker, Worker]) = [Some (error_fragment e), None]"
    and "w_pc (after sc db0 [Worker, Worker, Worker]) = WExited"
    and "\<not> alive (after sc db0 [Worker, Worker, Worker])"
  using assms by (simp_all add: after_def step_def worker_step_def init_def alive_def)

section \<open>Persistence of the turn\<close>

lemma worker_start_bot:
  assumes "worker_start sc = Inr b"
  shows "bot_session_id b = req_session_id (sc_request sc)"
    and "user_input b = req_prompt (sc_request sc)"
  using assms
  by (auto simp: worker_start_def load_model_def prompt_def Let_def
      split: if_splits sum.splits option.splits)

lemma prefix_of_program:
  "xs @ ys = map Put P @ [a1, a2] \<Longrightarrow>
   (\<exists>n. xs = map Put (take n P)) \<or> xs = map Put P @ [a1] \<or> xs = map Put P @ [a1, a2]"
proof (induction P arbitrary: xs)
  case Nil
  then show ?case
    by (cases xs; cases "tl xs"; cases "tl (tl xs)") auto
next
  case (Cons p P)
  show ?case
  proof (cases xs)
    case Nil
    then have "xs = map Put (take 0 (p # P))" by simp
    then show ?thesis by blast
  next
    case (Cons x xs')
    with Cons.prems have x: "x = Put p" and r: "xs' @ ys = map Put P @ [a1, a2]" by simp_all
    from Cons.IH [OF r] show ?thesis
    proof (elim disjE exE)
      fix n assume "xs' = map Put (take n P)"
      with x Cons have "xs = map Put (take (Suc n) (p # P))" by simp
      then show ?thesis by blast
    qed (simp_all add: x Cons)
  qed
qed

lemma exec_store_map_Put [simp]: "exec_store (map Put xs) db = db"
  by (induction xs) simp_all

lemma role_no_nul:
  "rl \<in> {''user'', ''assistant'', ''system''} \<Longrightarrow> \<not> has_nul rl"
  by (auto simp: has_nul_def)

lemma add_message_appends:
  assumes "connection db" and "\<not> tx_aborted db"
    and "uuid_canon db sid = Some k"
    and "k \<in> set (map conv_session_id (conversations db))"
    and "rl \<in> {''user'', ''assistant'', ''system''}"
    and "\<not> has_nul sid" and "\<not> has_nul cnt"
    and "\<not> has_nul (case rsn of None \<Rightarrow> [] | Some r \<Rightarrow> r)"
  shows "fst (add_message db sid rl cnt rsn) = Inr True"
    and "conversation_details (snd (add_message db sid rl cnt rsn)) =
           conversation_details db @
             [\<lparr>msg_session_id = k, msg_role = rl, msg_content = cnt,
               msg_reasoning = (case rsn of None \<Rightarrow> [] | Some r \<Rightarrow> r),
               msg_timestamp = now db\<rparr>]"
    and "now db < now (snd (add_message db sid rl cnt rsn))"
    and "connection (snd (add_message db sid rl cnt rsn))"
    and "\<not> tx_aborted (snd (add_message db sid rl cnt rsn))"
    and "uuid_canon (snd (add_message db sid rl cnt rsn)) = uuid_canon db"
    and "map conv_session_id (conversations (snd (add_message db sid rl cnt rsn))) =
           map conv_session_id (conversations db)"
proof -
  let ?rsn = "case rsn of None \<Rightarrow> [] | Some r \<Rightarrow> r"
  let ?row = "\<lparr>msg_session_id = k, msg_role = rl, msg_content = cnt,
               msg_reasoning = ?rsn, msg_timestamp = now db\<rparr>"
  let ?db1 = "db\<lparr>conversation_details := conversation_details db @ [?row]\<rparr>"
  have e: "execute_check db [sid, rl, cnt, ?rsn] = None"
    using assms(2,6,7,8) role_no_nul [OF assms(5)] by (simp add: execute_check_def)
  have ins: "sql_insert_detail db sid rl cnt ?rsn = Inr ?db1"
    using assms(3,4,5) by (simp add: sql_insert_detail_def e)
  have res: "add_message db sid rl cnt rsn = (Inr True, commit ?db1)
      \<or> (\<exists>db2. add_message db sid rl cnt rsn = (Inr True, commit db2)
            \<and> conversation_details db2 = conversation_details ?db1
            \<and> now db2 = Suc (now db) \<and> connection db2 \<and> uuid_canon db2 = uuid_canon db
            \<and> map conv_session_id (conversations db2) = map conv_session_id (conversations db))"
  proof (cases "rl = ''user'' \<and> sql_count_details ?db1 sid = Inr 1")
    case True
    have c1: "connection ?db1" "\<not> tx_aborted ?db1" "uuid_canon ?db1 sid = Some k"
      "k \<in> set (map conv_session_id (conversations ?db1))"
      using assms(1,2,3,4) by simp_all
    have nn: "\<not> has_nul (if 255 < length (spec_title cnt)
                          then take 252 (spec_title cnt) @ ''...'' else spec_title cnt)"
      using spec_title_fits [of cnt] spec_title_no_nul [OF assms(7)] by simp
    from update_conversation_title_in_known [OF c1 assms(6) nn, of db]
    obtain db2 where u: "update_conversation_title_in db ?db1 sid (spec_title cnt) = (Inr True, db2)"
      and k2: "connection db2" "uuid_canon db2 = uuid_canon ?db1"
        "conversation_details db2 = conversation_details ?db1" "now db2 = Suc (now ?db1)"
        "map conv_session_id (conversations db2) = map conv_session_id (conversations ?db1)"
      by blast
    from True have r: "rl = ''user''" by (rule conjunct1)
    from True have one: "sql_count_details ?db1 sid = Inr 1" by (rule conjunct2)
    have "add_message db sid ''user'' cnt rsn = (Inr True, commit db2)"
      using assms(1) ins [unfolded r] one [unfolded r] u [unfolded r]
      by (simp add: add_message_def Let_def code_title_is_spec_title)
    then have "add_message db sid rl cnt rsn = (Inr True, commit db2)"
      by (simp add: r)
    with k2 show ?thesis
      by - (rule disjI2, rule exI [of _ db2], simp)
  next
    case False
    from insert_detail_facts(6,7) [OF ins]
    obtain n where n: "sql_count_details ?db1 sid = Inr (Suc n)" by auto
    have "add_message db sid rl cnt rsn = (Inr True, commit ?db1)"
      using assms(1) ins False n by (auto simp: add_message_def Let_def)
    then show ?thesis by blast
  qed
  from res show "fst (add_message db sid rl cnt rsn) = Inr True" by auto
  from res show "conversation_details (snd (add_message db sid rl cnt rsn)) =
      conversation_details db @ [?row]"
    by (auto simp: commit_def)
  from res show "now db < now (snd (add_message db sid rl cnt rsn))"
    by (auto simp: commit_def)
  from res assms(1) show "connection (snd (add_message db sid rl cnt rsn))"
    by (auto simp: commit_def)
  from res show "\<not> tx_aborted (snd (add_message db sid rl cnt rsn))"
    by (auto simp: commit_def)
  from res show "uuid_canon (snd (add_message db sid rl cnt rsn)) = uuid_canon db"
    by (auto simp: commit_def)
  from res show "map conv_session_id (conversations (snd (add_message db sid rl cnt rsn))) =
      map conv_session_id (conversations db)"
    by (auto simp: commit_def)
qed

lemma split_response_total: "\<exists>th c. split_response d ids = Inr (th, c)"
proof -
  have "(\<exists>m. py_index (rev ids) end_of_reasoning = Inl (ValueError m))
      \<or> (\<exists>r. py_index (rev ids) end_of_reasoning = Inr r)"
  proof (cases "end_of_reasoning \<in> set (rev ids)")
    case True
    then obtain pre post where "rev ids = pre @ end_of_reasoning # post"
      and "end_of_reasoning \<notin> set pre"
      by (meson split_list_first)
    with py_index_first [of end_of_reasoning pre post] show ?thesis by simp
  next
    case False
    from py_index_absent [OF this] show ?thesis by blast
  qed
  then show ?thesis
    by (auto simp: split_response_def split_index_def index_try_def)
qed

text \<open>
  Progress of the thread: once started and not killed, every step of the thread
  performs the next action of its program, as long as no action holds NUL.
\<close>

lemma thread_progress_step:
  assumes "t_started s" and "\<not> killed s" and "w_pc s \<noteq> WStart" and "a \<noteq> Kill"
    and "\<forall>x \<in> set (t_todo s). \<not> nul_action x"
  shows "t_started (step sc a s)" and "\<not> killed (step sc a s)" and "w_pc (step sc a s) \<noteq> WStart"
    and "t_done (step sc a s) @ t_todo (step sc a s) = t_done s @ t_todo s"
    and "a = Thread \<Longrightarrow> length (t_todo (step sc a s)) = length (t_todo s) - 1"
    and "a \<noteq> Thread \<Longrightarrow> t_todo (step sc a s) = t_todo s"
proof -
  have th: "a = Thread \<Longrightarrow>
      t_started (step sc a s) \<and> \<not> killed (step sc a s) \<and> w_pc (step sc a s) = w_pc s
      \<and> t_done (step sc a s) @ t_todo (step sc a s) = t_done s @ t_todo s
      \<and> length (t_todo (step sc a s)) = length (t_todo s) - 1"
  proof -
    assume a: "a = Thread"
    show ?thesis
    proof (cases "t_todo s")
      case Nil
      with a assms(1,2) show ?thesis by (simp add: step_def thread_step_def)
    next
      case (Cons act rest)
      show ?thesis
      proof (cases act)
        case (Put item)
        with a Cons assms(1,2) show ?thesis by (simp add: step_def thread_step_def)
      next
        case (AddMessage sid rl cnt rsn)
        with Cons assms(5) have nn: "\<not> nul_action (AddMessage sid rl cnt rsn)" by simp
        obtain res db' where r: "add_message (store s) sid rl cnt rsn = (res, db')"
          by (cases "add_message (store s) sid rl cnt rsn")
        with nn add_message_raises(2) [of "store s" sid rl cnt rsn _ db']
        obtain ok where "res = Inr ok" by (cases res) auto
        with a Cons AddMessage assms(1,2) r show ?thesis
          by (simp add: step_def thread_step_def)
      qed
    qed
  qed
  have ot: "a \<noteq> Thread \<Longrightarrow>
      t_started (step sc a s) \<and> \<not> killed (step sc a s) \<and> w_pc (step sc a s) \<noteq> WStart
      \<and> t_done (step sc a s) = t_done s \<and> t_todo (step sc a s) = t_todo s"
    using assms(1,2,3,4)
    by (cases a)
      (auto simp: step_def worker_step_def consumer_step_def
        split: w_state.splits list.splits option.splits c_state.splits)
  from th ot assms(3) show "t_started (step sc a s)" "\<not> killed (step sc a s)"
    "w_pc (step sc a s) \<noteq> WStart"
    "t_done (step sc a s) @ t_todo (step sc a s) = t_done s @ t_todo s"
    by (cases "a = Thread"; simp)+
  from th show "a = Thread \<Longrightarrow> length (t_todo (step sc a s)) = length (t_todo s) - 1" by simp
  from ot show "a \<noteq> Thread \<Longrightarrow> t_todo (step sc a s) = t_todo s" by simp
qed

lemma thread_progress:
  assumes "t_started s" and "\<not> killed s" and "w_pc s \<noteq> WStart" and "Kill \<notin> set sched"
    and "\<forall>x \<in> set (t_done s @ t_todo s). \<not> nul_action x"
    and "length (t_todo s) \<le> count_list sched Thread"
  shows "t_todo (run sc sched s) = [] \<and> t_done (run sc sched s) = t_done s @ t_todo s"
  using assms
proof (induction sched arbitrary: s)
  case Nil
  then show ?case by simp
next
  case (Cons a sched)
  from Cons.prems(4) have ak: "a \<noteq> Kill" and k: "Kill \<notin> set sched" by auto
  from Cons.prems(5) have nn: "\<forall>x \<in> set (t_todo s). \<not> nul_action x" by simp
  note st = thread_progress_step [OF Cons.prems(1,2,3) ak nn, of sc]
  have n': "\<forall>x \<in> set (t_done (step sc a s) @ t_todo (step sc a s)). \<not> nul_action x"
    using st(4) Cons.prems(5) by simp
  have len: "length (t_todo (step sc a s)) \<le> count_list sched Thread"
  proof (cases "a = Thread")
    case True
    with st(5) Cons.prems(6) show ?thesis by simp
  next
    case False
    with st(6) Cons.prems(6) show ?thesis by simp
  qed
  from Cons.IH [OF st(1,2,3) k n' len] st(4) show ?case by simp
qed

lemma demo_add_user:
  "add_message titled_db demo_sid ''user'' ''2+2?'' None =
     (Inr True,
      \<lparr>connection = True, tx_aborted = False, uuid_canon = demo_uuid_canon,
        conversations = [\<lparr>conv_session_id = demo_sid, conv_title = ''2+2?'',
                          conv_created_at = 0, conv_updated_at = Suc 0\<rparr>],
        conversation_details =
          [\<lparr>msg_session_id = demo_sid, msg_role = ''user'', msg_content = ''2+2?'',
            msg_reasoning = [], msg_timestamp = Suc 0\<rparr>],
        now = 3\<rparr>)"
proof -
  have h: "\<not> has_nul ''user''" "\<not> has_nul ''2+2?''" "\<not> has_nul []"
    by (simp_all add: has_nul_def)
  show ?thesis
    by (simp add: titled_db_eq add_message_def sql_insert_detail_def sql_count_details_def
        update_conversation_title_in_def sql_update_title_def execute_check_def
        demo_sid_canon demo_sid_no_nul h commit_def Let_def)
qed

lemma demo_add_assistant:
  "add_message
     \<lparr>connection = True, tx_aborted = False, uuid_canon = demo_uuid_canon,
       conversations = [\<lparr>conv_session_id = demo_sid, conv_title = ''2+2?'',
                         conv_created_at = 0, conv_updated_at = Suc 0\<rparr>],
       conversation_details =
         [\<lparr>msg_session_id = demo_sid, msg_role = ''user'', msg_content = ''2+2?'',
           msg_reasoning = [], msg_timestamp = Suc 0\<rparr>],
       now = 3\<rparr>
     demo_sid ''assistant'' ''4'' (Some []) =
     (Inr True,
      \<lparr>connection = True, tx_aborted = False, uuid_canon = demo_uuid_canon,
        conversations = [\<lparr>conv_session_id = demo_sid, conv_title = ''2+2?'',
                          conv_created_at = 0, conv_updated_at = Suc 0\<rparr>],
        conversation_details =
          [\<lparr>msg_session_id = demo_sid, msg_role = ''user'', msg_content = ''2+2?'',
            msg_reasoning = [], msg_timestamp = Suc 0\<rparr>,
           \<lparr>msg_session_id = demo_sid, msg_role = ''assistant'', msg_content = ''4'',
            msg_reasoning = [], msg_timestamp = 3\<rparr>],
        now = 4\<rparr>)"
proof -
  have h: "\<not> has_nul ''assistant''" "\<not> has_nul ''4''" "\<not> has_nul []"
    by (simp_all add: has_nul_def)
  show ?thesis
    by (simp add: add_message_def sql_insert_detail_def execute_check_def
        demo_sid_canon demo_sid_no_nul h commit_def Let_def)
qed

lemma thread_first_fields:
  "conversation_details (store (after demo_scenario titled_db thread_first_schedule)) =
     [\<lparr>msg_session_id = demo_sid, msg_role = ''user'', msg_content = ''2+2?'',
       msg_reasoning = [], msg_timestamp = 1\<rparr>,
      \<lparr>msg_session_id = demo_sid, msg_role = ''assistant'', msg_content = ''4'',
       msg_reasoning = [], msg_timestamp = 3\<rparr>]"
  "stream_queue (after demo_scenario titled_db thread_first_schedule) = [Some ''4'', None]"
  "taken (after demo_scenario titled_db thread_first_schedule) = []"
  "produced (after demo_scenario titled_db thread_first_schedule) = []"
  "output_queue (after demo_scenario titled_db thread_first_schedule) = []"
  "received (after demo_scenario titled_db thread_first_schedule) = []"
  "c_pc (after demo_scenario titled_db thread_first_schedule) = CCheck"
  by (simp_all add: after_def thread_first_schedule_def step_defs demo_worker_start
      demo_run_generate demo_add_user demo_add_assistant)

lemma before_worker:
  assumes "Worker \<notin> set pre" and "Kill \<notin> set pre"
    and "\<not> t_started s" and "\<not> killed s" and "w_pc s = WStart"
  shows "\<not> t_started (run sc pre s) \<and> \<not> killed (run sc pre s) \<and> w_pc (run sc pre s) = WStart
       \<and> t_todo (run sc pre s) = t_todo s \<and> t_done (run sc pre s) = t_done s"
  using assms
proof (induction pre arbitrary: s)
  case Nil
  then show ?case by simp
next
  case (Cons a pre)
  from Cons.prems(1,2) have a: "a = Thread \<or> a = Consumer" by (cases a) auto
  have st: "\<not> t_started (step sc a s) \<and> \<not> killed (step sc a s) \<and> w_pc (step sc a s) = WStart
       \<and> t_todo (step sc a s) = t_todo s \<and> t_done (step sc a s) = t_done s"
    using a Cons.prems(3,4,5)
    by (auto simp: step_def thread_step_def consumer_step_def
        split: c_state.splits list.splits option.splits if_splits)
  from Cons.prems(1,2) have p: "Worker \<notin> set pre" "Kill \<notin> set pre" by auto
  from st have q: "\<not> t_started (step sc a s)" "\<not> killed (step sc a s)"
    "w_pc (step sc a s) = WStart" by simp_all
  from Cons.IH [OF p q] st show ?case by simp
qed

text \<open>
  C5, the claim as it is written, fails: under \<open>thread_first_schedule\<close> the thread of
  \<open>run_generate\<close> has written the user message and the assistant message to the store
  while \<open>worker_process\<close> has put nothing on the output queue yet; the event generator
  has received no sentinel, and its loop has not ended.
\<close>

theorem messages_visible_before_sentinel_delivered:
  "map msg_role
     (conversation_details (store (after demo_scenario titled_db thread_first_schedule)))
     = [''user'', ''assistant'']
   \<and> produced (after demo_scenario titled_db thread_first_schedule) = []
   \<and> None \<notin> set (received (after demo_scenario titled_db thread_first_schedule))
   \<and> c_pc (after demo_scenario titled_db thread_first_schedule) \<noteq> CDone"
  by (simp add: thread_first_fields)

text \<open>
  C5 as amended. For a generation that returns, the store of a stream request is at
  every moment the initial store, or that store after \<open>add_message\<close> for the user turn,
  or after \<open>add_message\<close> for the user turn and then for the assistant turn with the
  complete answer and reasoning: the user message is written before the assistant
  message and the assistant message in one piece. The store differs from the initial
  one only when every item of the streamer, the terminal sentinel included, has been put
  on the stream queue of the worker, which is when \<open>model.generate\<close> has returned. When
  the connection is set and has no aborted transaction, the conversation is known, and
  neither the session id nor the prompt, the answer or the reasoning holds the character
  NUL, the two writes append the user message and then the assistant message, the first
  with the smaller timestamp. Both writes do happen: when the head of \<open>worker_process\<close>
  succeeds, none of the four strings holds NUL, the worker process is not killed, and
  after the step of the worker that starts the thread the thread is scheduled once for
  every item of the streamer and twice more, the store is the one after both calls of
  \<open>add_message\<close> and the thread has ended. Nothing orders the writes and the delivery of
  the sentinel to the event generator.
\<close>

theorem persistence_after_generation:
  fixes sc :: scenario and db0 :: conversation_db and sched :: "actor list"
  defines "s \<equiv> after sc db0 sched"
    and "sid \<equiv> req_session_id (sc_request sc)"
    and "db1 \<equiv> snd (add_message db0 (req_session_id (sc_request sc)) ''user''
                       (req_prompt (sc_request sc)) None)"
  assumes "generated (sc_engine sc) = Inr response_ids"
    and "split_response (tokenizer_decode (sc_engine sc)) response_ids
           = Inr (thinking_content, answer)"
  shows "(store s = db0 \<or> store s = db1
          \<or> store s = snd (add_message db1 sid ''assistant'' answer (Some thinking_content)))
       \<and> (store s \<noteq> db0 \<longrightarrow>
            taken s @ stream_queue s =
              concat (map (\<lambda>(text, stream_end). on_finalized_text text stream_end)
                        (streamed (sc_engine sc))))
       \<and> (connection db0 \<and> \<not> tx_aborted db0
            \<and> uuid_canon db0 sid = Some k
            \<and> k \<in> set (map conv_session_id (conversations db0))
            \<and> \<not> has_nul sid \<and> \<not> has_nul (req_prompt (sc_request sc))
            \<and> \<not> has_nul answer \<and> \<not> has_nul thinking_content \<longrightarrow>
            conversation_details db1 = conversation_details db0 @
              [\<lparr>msg_session_id = k, msg_role = ''user'',
                msg_content = req_prompt (sc_request sc), msg_reasoning = [],
                msg_timestamp = now db0\<rparr>]
            \<and> conversation_details
                 (snd (add_message db1 sid ''assistant'' answer (Some thinking_content))) =
               conversation_details db1 @
              [\<lparr>msg_session_id = k, msg_role = ''assistant'', msg_content = answer,
                msg_reasoning = thinking_content, msg_timestamp = now db1\<rparr>]
            \<and> now db0 < now db1)
       \<and> (worker_start sc = Inr b
            \<and> \<not> has_nul sid \<and> \<not> has_nul (req_prompt (sc_request sc))
            \<and> \<not> has_nul answer \<and> \<not> has_nul thinking_content
            \<and> Kill \<notin> set sched \<and> sched = pre @ Worker # rest \<and> Worker \<notin> set pre
            \<and> length (concat (map (\<lambda>(text, stream_end). on_finalized_text text stream_end)
                                 (streamed (sc_engine sc)))) + 2
                \<le> count_list rest Thread \<longrightarrow>
            store s = snd (add_message db1 sid ''assistant'' answer (Some thinking_content))
            \<and> t_todo s = [])"
proof -
  let ?P = "concat (map (\<lambda>(text, stream_end). on_finalized_text text stream_end)
                      (streamed (sc_engine sc)))"
  let ?prm = "req_prompt (sc_request sc)"
  let ?db2 = "snd (add_message db1 sid ''assistant'' answer (Some thinking_content))"
  let ?u = "AddMessage sid ''user'' ?prm None"
  let ?a = "AddMessage sid ''assistant'' answer (Some thinking_content)"
  have i: "inv_thread sc db0 s"
    using invariant_after [of sc db0 sched] by (simp add: invariant_def s_def)
  have rg: "run_generate (sc_engine sc) b' = map Put ?P @ [?u, ?a]"
    if "worker_start sc = Inr b'" for b'
    using assms(4,5) worker_start_bot [OF that] by (simp add: run_generate_def sid_def)
  have a: "(store s = db0 \<or> store s = db1 \<or> store s = ?db2)
       \<and> (store s \<noteq> db0 \<longrightarrow> taken s @ stream_queue s = ?P)"
  proof (cases "t_started s")
    case False
    with i show ?thesis by (simp add: inv_thread_def)
  next
    case True
    with i obtain b' undone where b: "worker_start sc = Inr b'"
      and prog: "t_done s @ t_todo s @ undone = run_generate (sc_engine sc) b'"
      and st: "store s = exec_store (t_done s) db0"
      and q: "taken s @ stream_queue s = puts_of (t_done s)"
      by (auto simp: inv_thread_def)
    from prog have "t_done s @ (t_todo s @ undone) = map Put ?P @ [?u, ?a]"
      by (simp add: rg [OF b])
    from prefix_of_program [OF this]
    show ?thesis
    proof (elim disjE exE)
      fix n assume "t_done s = map Put (take n ?P)"
      with st show ?thesis by simp
    next
      assume d: "t_done s = map Put ?P @ [?u]"
      with st have "store s = db1" by (simp add: db1_def sid_def)
      moreover from d q have "taken s @ stream_queue s = ?P" by simp
      ultimately show ?thesis by simp
    next
      assume d: "t_done s = map Put ?P @ [?u, ?a]"
      with st have "store s = ?db2" by (simp add: db1_def sid_def)
      moreover from d q have "taken s @ stream_queue s = ?P" by simp
      ultimately show ?thesis by simp
    qed
  qed
  have c: "connection db0 \<and> \<not> tx_aborted db0
            \<and> uuid_canon db0 sid = Some k
            \<and> k \<in> set (map conv_session_id (conversations db0))
            \<and> \<not> has_nul sid \<and> \<not> has_nul ?prm
            \<and> \<not> has_nul answer \<and> \<not> has_nul thinking_content \<longrightarrow>
            conversation_details db1 = conversation_details db0 @
              [\<lparr>msg_session_id = k, msg_role = ''user'',
                msg_content = ?prm, msg_reasoning = [], msg_timestamp = now db0\<rparr>]
            \<and> conversation_details ?db2 = conversation_details db1 @
              [\<lparr>msg_session_id = k, msg_role = ''assistant'', msg_content = answer,
                msg_reasoning = thinking_content, msg_timestamp = now db1\<rparr>]
            \<and> now db0 < now db1"
  proof (intro impI, elim conjE)
    assume h: "connection db0" "\<not> tx_aborted db0" "uuid_canon db0 sid = Some k"
      "k \<in> set (map conv_session_id (conversations db0))"
      and n: "\<not> has_nul sid" "\<not> has_nul ?prm" "\<not> has_nul answer" "\<not> has_nul thinking_content"
    have u: "''user'' \<in> {''user'', ''assistant'', ''system''}" by simp
    have as: "''assistant'' \<in> {''user'', ''assistant'', ''system''}" by simp
    have e: "\<not> has_nul (case None of None \<Rightarrow> [] | Some r \<Rightarrow> r)"
      by (simp add: has_nul_def)
    have t: "\<not> has_nul (case Some thinking_content of None \<Rightarrow> [] | Some r \<Rightarrow> r)"
      using n(4) by simp
    note m1 = add_message_appends [OF h u n(1,2) e]
    have h1: "connection db1" "\<not> tx_aborted db1" "uuid_canon db1 sid = Some k"
      "k \<in> set (map conv_session_id (conversations db1))"
      using m1(4,5,6,7) h(3,4) by (simp_all add: db1_def sid_def)
    note m2 = add_message_appends [OF h1 as n(1,3) t]
    from m1(2,3) m2(2) show "conversation_details db1 = conversation_details db0 @
              [\<lparr>msg_session_id = k, msg_role = ''user'',
                msg_content = ?prm, msg_reasoning = [], msg_timestamp = now db0\<rparr>]
            \<and> conversation_details ?db2 = conversation_details db1 @
              [\<lparr>msg_session_id = k, msg_role = ''assistant'', msg_content = answer,
                msg_reasoning = thinking_content, msg_timestamp = now db1\<rparr>]
            \<and> now db0 < now db1"
      by (simp add: db1_def sid_def)
  qed
  have d: "worker_start sc = Inr b
            \<and> \<not> has_nul sid \<and> \<not> has_nul ?prm
            \<and> \<not> has_nul answer \<and> \<not> has_nul thinking_content
            \<and> Kill \<notin> set sched \<and> sched = pre @ Worker # rest \<and> Worker \<notin> set pre
            \<and> length ?P + 2 \<le> count_list rest Thread \<longrightarrow>
            store s = ?db2 \<and> t_todo s = []"
  proof (intro impI, elim conjE)
    assume b: "worker_start sc = Inr b"
      and n: "\<not> has_nul sid" "\<not> has_nul ?prm" "\<not> has_nul answer" "\<not> has_nul thinking_content"
      and k: "Kill \<notin> set sched" and sch: "sched = pre @ Worker # rest"
      and w: "Worker \<notin> set pre" and len: "length ?P + 2 \<le> count_list rest Thread"
    let ?s0 = "run sc pre (init db0)"
    let ?s1 = "step sc Worker ?s0"
    from k sch have kp: "Kill \<notin> set pre" and kr: "Kill \<notin> set rest" by simp_all
    have "\<not> t_started (init db0)" "\<not> killed (init db0)" "w_pc (init db0) = WStart"
      "t_todo (init db0) = []" "t_done (init db0) = []"
      by (simp_all add: init_def)
    with before_worker [OF w kp, of "init db0" sc]
    have s0: "\<not> t_started ?s0" "\<not> killed ?s0" "w_pc ?s0 = WStart" "t_done ?s0 = []"
      by simp_all
    have s1: "t_started ?s1" "\<not> killed ?s1" "w_pc ?s1 \<noteq> WStart"
      and td: "t_todo ?s1 = map Put ?P @ [?u, ?a]" "t_done ?s1 = []"
      using s0 b rg [OF b] by (simp_all add: step_def worker_step_def)
    have se: "s = run sc rest ?s1"
      by (simp add: s_def after_def sch run_append)
    have un: "\<not> has_nul ''user''" "\<not> has_nul ''assistant''" "\<not> has_nul []"
      by (simp_all add: has_nul_def)
    have nn: "\<forall>x \<in> set (t_done ?s1 @ t_todo ?s1). \<not> nul_action x"
      using n un by (auto simp: td)
    have ln: "length (t_todo ?s1) \<le> count_list rest Thread"
      using len by (simp add: td)
    from thread_progress [OF s1 kr nn ln, of sc]
    have fin: "t_todo s = []" "t_done s = map Put ?P @ [?u, ?a]"
      by (simp_all add: se td)
    from i have "store s = exec_store (t_done s) db0" by (simp add: inv_thread_def)
    with fin show "store s = ?db2 \<and> t_todo s = []"
      by (simp add: db1_def sid_def)
  qed
  from a c d show ?thesis by blast
qed

theorem persistence_after_generation_witness:
  "generated (sc_engine demo_scenario) = Inr [19]
   \<and> split_response (tokenizer_decode (sc_engine demo_scenario)) [19] = Inr ([], ''4'')
   \<and> store (after demo_scenario titled_db thread_first_schedule) \<noteq> titled_db
   \<and> taken (after demo_scenario titled_db thread_first_schedule)
       @ stream_queue (after demo_scenario titled_db thread_first_schedule)
       = on_finalized_text ''4'' True
   \<and> connection titled_db \<and> \<not> tx_aborted titled_db
   \<and> uuid_canon titled_db demo_sid = Some demo_sid
   \<and> demo_sid \<in> set (map conv_session_id (conversations titled_db))
   \<and> \<not> has_nul demo_sid \<and> \<not> has_nul ''2+2?'' \<and> \<not> has_nul ''4'' \<and> \<not> has_nul []
   \<and> conversation_details (snd (add_message titled_db demo_sid ''user'' ''2+2?'' None)) =
       conversation_details titled_db @
       [\<lparr>msg_session_id = demo_sid, msg_role = ''user'', msg_content = ''2+2?'',
         msg_reasoning = [], msg_timestamp = now titled_db\<rparr>]
   \<and> conversation_details
        (snd (add_message (snd (add_message titled_db demo_sid ''user'' ''2+2?'' None))
                demo_sid ''assistant'' ''4'' (Some []))) =
       conversation_details (snd (add_message titled_db demo_sid ''user'' ''2+2?'' None)) @
       [\<lparr>msg_session_id = demo_sid, msg_role = ''assistant'', msg_content = ''4'',
         msg_reasoning = [],
         msg_timestamp = now (snd (add_message titled_db demo_sid ''user'' ''2+2?'' None))\<rparr>]
   \<and> now titled_db < now (snd (add_message titled_db demo_sid ''user'' ''2+2?'' None))
   \<and> worker_start demo_scenario =
       Inr \<lparr>model_loaded = True, history = [], user_input = ''2+2?'',
            messages = [(''user'', ''2+2?'')], bot_session_id = demo_sid\<rparr>
   \<and> Kill \<notin> set thread_first_schedule
   \<and> thread_first_schedule = [] @ Worker # [Thread, Thread, Thread, Thread]
   \<and> Worker \<notin> set []
   \<and> length (on_finalized_text ''4'' True) + 2 \<le> count_list [Thread, Thread, Thread, Thread] Thread
   \<and> store (after demo_scenario titled_db thread_first_schedule) =
       snd (add_message (snd (add_message titled_db demo_sid ''user'' ''2+2?'' None))
              demo_sid ''assistant'' ''4'' (Some []))
   \<and> t_todo (after demo_scenario titled_db thread_first_schedule) = []"
proof -
  let ?s = "after demo_scenario titled_db thread_first_schedule"
  have g: "generated (sc_engine demo_scenario) = Inr [19]"
    by (simp add: demo_engine_def)
  have sp: "split_response (tokenizer_decode (sc_engine demo_scenario)) [19] = Inr ([], ''4'')"
    by (simp add: demo_defs newline_def)
  have rq: "req_session_id (sc_request demo_scenario) = demo_sid"
    "req_prompt (sc_request demo_scenario) = ''2+2?''"
    by (simp_all add: demo_scenario_def demo_request_def)
  have st: "streamed demo_engine = [(''4'', True)]" by (simp add: demo_engine_def)
  have ne: "store ?s \<noteq> titled_db"
  proof
    assume "store ?s = titled_db"
    then have "conversation_details (store ?s) = conversation_details titled_db" by simp
    then show False by (simp add: thread_first_fields(1))
  qed
  have c: "connection titled_db" "\<not> tx_aborted titled_db"
    and u: "uuid_canon titled_db demo_sid = Some demo_sid"
    and k: "demo_sid \<in> set (map conv_session_id (conversations titled_db))"
    by (simp_all add: demo_sid_canon)
  have n: "\<not> has_nul ''2+2?''" "\<not> has_nul ''4''" "\<not> has_nul []"
    by (simp_all add: has_nul_def)
  have sch: "Kill \<notin> set thread_first_schedule"
    "thread_first_schedule = [] @ Worker # [Thread, Thread, Thread, Thread]"
    "Worker \<notin> set []"
    "length (on_finalized_text ''4'' True) + 2 \<le> count_list [Thread, Thread, Thread, Thread] Thread"
    by (simp_all add: thread_first_schedule_def on_finalized_text_def)
  note w = demo_worker_start
  from persistence_after_generation
    [OF g sp, of titled_db thread_first_schedule demo_sid
      "\<lparr>model_loaded = True, history = [], user_input = ''2+2?'',
        messages = [(''user'', ''2+2?'')], bot_session_id = demo_sid\<rparr>"
      "[]" "[Thread, Thread, Thread, Thread]"]
    ne c u k demo_sid_no_nul n sch w g sp
  show ?thesis by (simp add: rq st)
qed

end
